theory Spec2Isabelle
  imports Complex_Main "HOL-Library.Sublist"
begin

section \<open>JavaScript strings and values\<close>

text \<open>
  A JavaScript string is a sequence of UTF-16 code units; a code unit is modelled as an
  integer from 0 to 65535. String literals of the source are written with \<open>lit\<close>.
\<close>

type_synonym ustring = "int list"

definition lit :: "string \<Rightarrow> ustring" where
  "lit s = map of_char s"

text \<open>The characters matched by \<open>\s\<close> and removed by \<open>String.prototype.trim\<close>.\<close>

definition is_ws :: "int \<Rightarrow> bool" where
  "is_ws c \<longleftrightarrow>
     c = 9 \<or> c = 10 \<or> c = 11 \<or> c = 12 \<or> c = 13 \<or> c = 32 \<or> c = 160 \<or> c = 5760
     \<or> (8192 \<le> c \<and> c \<le> 8202) \<or> c = 8232 \<or> c = 8233 \<or> c = 8239 \<or> c = 8287
     \<or> c = 12288 \<or> c = 65279"

definition trim :: "ustring \<Rightarrow> ustring" where
  "trim s = rev (dropWhile is_ws (rev (dropWhile is_ws s)))"

definition is_digit :: "int \<Rightarrow> bool" where
  "is_digit c \<longleftrightarrow> 48 \<le> c \<and> c \<le> 57"

text \<open>\<open>Array.prototype.join\<close> on an array of strings.\<close>

fun join :: "ustring \<Rightarrow> ustring list \<Rightarrow> ustring" where
  "join sep [] = []"
| "join sep [x] = x"
| "join sep (x # y # ys) = x @ sep @ join sep (y # ys)"

text \<open>\<open>String.prototype.includes\<close>.\<close>

definition str_includes :: "ustring \<Rightarrow> ustring \<Rightarrow> bool" where
  "str_includes hay needle = sublist needle hay"

text \<open>\<open>Array.prototype.indexOf\<close>: the first position of a value, \<open>None\<close> for -1.\<close>

fun indexOf :: "'a list \<Rightarrow> 'a \<Rightarrow> nat option" where
  "indexOf [] x = None"
| "indexOf (y # ys) x = (if y = x then Some 0 else map_option Suc (indexOf ys x))"

text \<open>\<open>new Set(xs)\<close> read back as an array: first occurrences, in insertion order.\<close>

definition set_insert :: "'a list \<Rightarrow> 'a \<Rightarrow> 'a list" where
  "set_insert acc x = (if x \<in> set acc then acc else acc @ [x])"

definition unique :: "'a list \<Rightarrow> 'a list" where
  "unique xs = foldl set_insert [] xs"

text \<open>
  \<open>String.prototype.split\<close> with a regular expression that matches a non-empty run of the
  characters satisfying \<open>P\<close> (such as \<open>/\n+/\<close> or \<open>/[\s,;]+/\<close>): the pieces between the
  maximal runs, with an empty piece before a leading run and after a trailing one.
\<close>

function split_runs :: "(int \<Rightarrow> bool) \<Rightarrow> ustring \<Rightarrow> ustring list" where
  "split_runs P s =
     (case dropWhile (\<lambda>c. \<not> P c) s of
        [] \<Rightarrow> [s]
      | c # rest \<Rightarrow> takeWhile (\<lambda>c. \<not> P c) s # split_runs P (dropWhile P rest))"
  by pat_completeness auto
termination
proof (relation "measure (\<lambda>(P, s). length s)", goal_cases)
  case 1
  show ?case by simp
next
  case (2 P s c rest)
  have "length (dropWhile P rest) \<le> length rest"
    by (rule length_dropWhile_le)
  moreover have "length (c # rest) \<le> length s"
    unfolding 2 [symmetric] by (rule length_dropWhile_le)
  ultimately show ?case by simp
qed

declare split_runs.simps [simp del]

text \<open>The decimal numeral of a natural number, as template literals print it.\<close>

function show_nat :: "nat \<Rightarrow> ustring" where
  "show_nat n = (if n < 10 then [48 + int n] else show_nat (n div 10) @ [48 + int (n mod 10)])"
  by pat_completeness auto
termination
  by (relation "measure id") auto

declare show_nat.simps [simp del]

section \<open>Credential pool (createKeyManager)\<close>

text \<open>
  \<open>sanitizeKey\<close>: trim, drop one leading \<open>digits.\<close> prefix (the regular expression
  \<open>^[0-9]+\.\<close>), trim again.
\<close>

definition strip_numbering :: "ustring \<Rightarrow> ustring" where
  "strip_numbering s =
     (let ds = takeWhile is_digit s; rest = dropWhile is_digit s
      in if ds \<noteq> [] \<and> rest \<noteq> [] \<and> hd rest = 46 then tl rest else s)"

definition sanitizeKey :: "ustring \<Rightarrow> ustring" where
  "sanitizeKey v =
     (if v = [] then []
      else let trimmed = trim v
           in if trimmed = [] then [] else trim (strip_numbering trimmed))"

record keymgr =
  pool :: "ustring list"
  index :: nat

definition createKeyManager :: "ustring list \<Rightarrow> keymgr" where
  "createKeyManager keys =
     \<lparr> pool = unique (filter (\<lambda>k. k \<noteq> []) (map sanitizeKey keys)), index = 0 \<rparr>"

text \<open>
  \<open>resolveKeys\<close> collects the configured credentials in order: the explicit list, the
  explicit key, the list and the single key of the environment (empty strings when
  unset), and the built-in default.
\<close>

definition DEFAULT_LONGCAT_KEY :: ustring where
  "DEFAULT_LONGCAT_KEY = lit ''ak_1Co58b18G06O1Av6hD1X43Gw00k5J''"

definition parseKeyList :: "ustring \<Rightarrow> ustring list" where
  "parseKeyList v =
     (if v = [] then []
      else filter (\<lambda>k. k \<noteq> [])
             (map sanitizeKey (split_runs (\<lambda>c. is_ws c \<or> c = 44 \<or> c = 59) v)))"

definition add_key :: "ustring list \<Rightarrow> ustring \<Rightarrow> ustring list" where
  "add_key ordered v =
     (let sanitized = sanitizeKey v
      in if sanitized = [] then ordered
         else if sanitized \<notin> set ordered then ordered @ [sanitized] else ordered)"

definition resolveKeys :: "ustring \<Rightarrow> ustring list \<Rightarrow> ustring \<Rightarrow> ustring \<Rightarrow> ustring list" where
  "resolveKeys explicitKey explicitList envKeys envKey =
     (let ordered = foldl add_key []
                      (explicitList @ [explicitKey] @ parseKeyList envKeys @ [envKey]
                       @ [DEFAULT_LONGCAT_KEY])
      in if ordered \<noteq> [] then ordered else [DEFAULT_LONGCAT_KEY])"

text \<open>\<open>current()\<close> returns the credential (\<open>None\<close> for null) and the updated manager.\<close>

definition current :: "keymgr \<Rightarrow> ustring option \<times> keymgr" where
  "current k =
     (if pool k = [] then (None, k)
      else let k' = (if index k \<ge> length (pool k) then k\<lparr>index := 0\<rparr> else k)
           in (Some (pool k' ! index k'), k'))"

definition splice1 :: "'a list \<Rightarrow> nat \<Rightarrow> 'a list" where
  "splice1 xs p = take p xs @ drop (Suc p) xs"

definition markInvalid :: "ustring \<Rightarrow> keymgr \<Rightarrow> ustring option \<times> keymgr" where
  "markInvalid key k =
     (let sanitized = sanitizeKey key
      in case indexOf (pool k) sanitized of
           None \<Rightarrow> current k
         | Some position \<Rightarrow>
             let k1 = k\<lparr>pool := splice1 (pool k) position\<rparr>
             in if pool k1 = [] then (None, k1)
                else let k2 = (if position \<le> index k1
                               then k1\<lparr>index := index k1 mod length (pool k1)\<rparr> else k1)
                     in current k2)"

text \<open>
  The order in which the manager would hand out its credentials from the cursor on,
  wrapping to position 0 past the end.
\<close>

definition rotation :: "keymgr \<Rightarrow> ustring list" where
  "rotation k =
     (let i = (if index k \<ge> length (pool k) then 0 else index k)
      in drop i (pool k) @ take i (pool k))"

section \<open>Errors and the failover client (createLongcatClient, post)\<close>

text \<open>
  A thrown \<open>Error\<close>: its message, its name, the \<open>code\<close> and \<open>errno\<close> properties
  (\<open>None\<close> when absent) and the optional \<open>cause\<close>.
\<close>

datatype jserr =
  JSError (err_message: ustring) (err_name: ustring) (err_code: "ustring option")
    (err_errno: "ustring option") (err_cause: "jserr option")

text \<open>\<open>new Error(message)\<close> and \<open>new Error(message, { cause })\<close>.\<close>

definition new_Error :: "ustring \<Rightarrow> jserr option \<Rightarrow> jserr" where
  "new_Error m c = JSError m (lit ''Error'') None None c"

text \<open>\<open>error?.cause ?? error\<close>.\<close>

definition cause_or_self :: "jserr \<Rightarrow> jserr" where
  "cause_or_self e = (case err_cause e of None \<Rightarrow> e | Some c \<Rightarrow> c)"

text \<open>\<open>cause?.code || cause?.errno\<close>: the first of the two that is a non-empty string.\<close>

definition code_or_errno :: "jserr \<Rightarrow> ustring option" where
  "code_or_errno c =
     (case err_code c of
        Some s \<Rightarrow> (if s \<noteq> [] then Some s else err_errno c)
      | None \<Rightarrow> err_errno c)"

text \<open>\<open>[error?.message, cause?.message].filter(Boolean).join(' ')\<close>.\<close>

definition joined_messages :: "jserr \<Rightarrow> ustring" where
  "joined_messages e =
     join (lit '' '') (filter (\<lambda>m. m \<noteq> []) [err_message e, err_message (cause_or_self e)])"

definition MAX_ATTEMPTS :: nat where
  "MAX_ATTEMPTS = 3"

definition RETRYABLE_STATUS_CODES :: "nat list" where
  "RETRYABLE_STATUS_CODES = [408, 409, 425, 429, 500, 502, 503, 504]"

definition RETRYABLE_CAUSE_CODES :: "ustring list" where
  "RETRYABLE_CAUSE_CODES =
     [lit ''UND_ERR_CONNECT_TIMEOUT'', lit ''UND_ERR_HEADERS_TIMEOUT'', lit ''UND_ERR_SOCKET'',
      lit ''UND_ERR_BODY_TIMEOUT'', lit ''ECONNRESET'', lit ''ECONNREFUSED'',
      lit ''EHOSTUNREACH'', lit ''ETIMEDOUT'', lit ''ENOTFOUND'']"

text \<open>
  \<open>String.prototype.toLowerCase\<close> follows the Unicode case tables, which are not part of
  the repository: the functions that call it take it as the parameter \<open>lower\<close>.
\<close>

definition isRetryableFetchError :: "(ustring \<Rightarrow> ustring) \<Rightarrow> jserr \<Rightarrow> bool" where
  "isRetryableFetchError lower error =
     (let cause = cause_or_self error; code = code_or_errno cause
      in if (case code of Some c \<Rightarrow> c \<noteq> [] \<and> c \<in> set RETRYABLE_CAUSE_CODES | None \<Rightarrow> False)
         then True
         else if err_name error = lit ''AbortError'' \<or> err_name cause = lit ''AbortError''
         then True
         else let message = lower (joined_messages error)
              in str_includes message (lit ''timeout'') \<or> str_includes message (lit ''temporarily'')
                 \<or> str_includes message (lit ''socket''))"

definition backoffMs :: "nat \<Rightarrow> nat" where
  "backoffMs attempt = 300 * attempt"

definition formatFetchError :: "jserr \<Rightarrow> ustring" where
  "formatFetchError error =
     (let parts1 = (if err_message error \<noteq> [] then [err_message error] else []);
          parts2 = (case err_cause error of
                      None \<Rightarrow> []
                    | Some c \<Rightarrow>
                        (case err_code c of
                           Some cd \<Rightarrow> (if cd \<noteq> [] then [lit ''code='' @ cd] else [])
                         | None \<Rightarrow> [])
                        @ (if err_message c \<noteq> [] \<and> err_message c \<noteq> err_message error
                           then [err_message c] else []));
          joined = join (lit '' | '') (filter (\<lambda>p. p \<noteq> []) (parts1 @ parts2))
      in if joined \<noteq> [] then joined else lit ''unknown error'')"

text \<open>
  What one \<open>fetch\<close> call does: it rejects with an error, or it resolves to a response
  with a status, the text of its body (\<open>response.text().catch(() => '')\<close>) and the
  outcome of \<open>response.json()\<close>, of a payload type \<open>'a\<close>.
\<close>

datatype 'a fetch_outcome =
  Rejects jserr
| Responds nat ustring "jserr + 'a"

text \<open>
  The endpoint answers the n-th call of an invocation (counted from 0), made with a given
  credential; this covers every behaviour of the remote service during one invocation.
\<close>

type_synonym 'a endpoint = "nat \<Rightarrow> ustring \<Rightarrow> 'a fetch_outcome"

text \<open>
  The state of one \<open>post\<close> invocation: the key manager, the credential of every network
  call made so far, the delays slept so far, and \<open>lastError\<close>.
\<close>

record post_state =
  km :: keymgr
  used :: "ustring list"
  sleeps :: "nat list"
  lastError :: "jserr option"

text \<open>How the \<open>for\<close> loop over the attempts of one credential ends.\<close>

datatype 'a attempt_end =
  Return 'a
| Throw jserr
| Break
| FallThrough

definition status_error :: "nat \<Rightarrow> ustring \<Rightarrow> jserr" where
  "status_error status detail =
     new_Error (lit ''Longcat request failed ('' @ show_nat status @ lit ''): ''
                @ (if take 200 detail \<noteq> [] then take 200 detail else lit ''no details'')) None"

function attempts ::
  "(ustring \<Rightarrow> ustring) \<Rightarrow> bool \<Rightarrow> 'a endpoint \<Rightarrow> ustring \<Rightarrow> nat \<Rightarrow> post_state
     \<Rightarrow> 'a attempt_end \<times> post_state" where
  "attempts lower proxyConfigured ep apiKey attempt st =
     (if \<not> attempt \<le> MAX_ATTEMPTS then (FallThrough, st)
      else
        let outcome = ep (length (used st)) apiKey;
            st0 = st\<lparr>used := used st @ [apiKey]\<rparr>
        in case outcome of
             Rejects error \<Rightarrow>
               let st1 = st0\<lparr>lastError := Some error\<rparr>
               in if \<not> isRetryableFetchError lower error \<or> attempt = MAX_ATTEMPTS
                  then
                    let prefix = (if proxyConfigured
                                  then lit ''Longcat request failed (check proxy settings)''
                                  else lit ''Longcat request failed'')
                    in (Throw (new_Error (prefix @ lit '': '' @ formatFetchError error)
                                 (Some error)), st1)
                  else attempts lower proxyConfigured ep apiKey (attempt + 1)
                         (st1\<lparr>sleeps := sleeps st1 @ [backoffMs attempt]\<rparr>)
           | Responds status detail body \<Rightarrow>
               if \<not> (200 \<le> status \<and> status \<le> 299)
               then
                 let error = status_error status detail
                 in if status = 401 \<or> status = 403
                    then
                      let st1 = st0\<lparr>lastError := Some error\<rparr>;
                          (nextKey, k') = markInvalid apiKey (km st1);
                          st2 = st1\<lparr>km := k'\<rparr>
                      in if nextKey = None \<or> nextKey = Some []
                         then (Throw (new_Error
                                 (lit ''All Longcat API keys were rejected by the server'')
                                 (Some error)), st2)
                         else (Break, st2)
                    else if status \<notin> set RETRYABLE_STATUS_CODES \<or> attempt = MAX_ATTEMPTS
                    then (Throw error, st0)
                    else attempts lower proxyConfigured ep apiKey (attempt + 1)
                           (st0\<lparr>lastError := Some error,
                                sleeps := sleeps st0 @ [backoffMs attempt]\<rparr>)
               else
                 (case body of
                    Inr data \<Rightarrow> (Return data, st0)
                  | Inl error \<Rightarrow>
                      let st1 = st0\<lparr>lastError := Some error\<rparr>
                      in if attempt = MAX_ATTEMPTS
                         then (Throw (new_Error
                                 (lit ''Longcat returned an unreadable response body'')
                                 (Some error)), st1)
                         else attempts lower proxyConfigured ep apiKey (attempt + 1)
                                (st1\<lparr>sleeps := sleeps st1 @ [backoffMs attempt]\<rparr>)))"
  by pat_completeness auto
termination
  by (relation "measure (\<lambda>(lower, pc, ep, k, attempt, st). Suc MAX_ATTEMPTS - attempt)") auto

declare attempts.simps [simp del]

text \<open>The error thrown when \<open>keyManager.current()\<close> yields no credential.\<close>

definition no_key_error :: "jserr option \<Rightarrow> jserr" where
  "no_key_error le =
     new_Error
       (case le of
          Some e \<Rightarrow>
            (if err_message e \<noteq> []
             then lit ''Longcat request failed after exhausting all API keys: '' @ err_message e
             else lit ''Longcat request failed: no API keys available'')
        | None \<Rightarrow> lit ''Longcat request failed: no API keys available'')
       le"

text \<open>
  The \<open>while (true)\<close> loop of \<open>post\<close>. Nothing bounds its iterations, so it is a partial
  function: \<open>None\<close> means that the call never returns.
\<close>

partial_function (option) post_loop ::
  "(ustring \<Rightarrow> ustring) \<Rightarrow> bool \<Rightarrow> 'a endpoint \<Rightarrow> post_state
     \<Rightarrow> ((jserr + 'a) \<times> post_state) option" where
  "post_loop lower proxyConfigured ep st =
     (case current (km st) of
        (None, k') \<Rightarrow> Some (Inl (no_key_error (lastError st)), st\<lparr>km := k'\<rparr>)
      | (Some apiKey, k') \<Rightarrow>
          (if apiKey = []
           then Some (Inl (no_key_error (lastError st)), st\<lparr>km := k'\<rparr>)
           else
             case attempts lower proxyConfigured ep apiKey 1 (st\<lparr>km := k'\<rparr>) of
               (Return data, st') \<Rightarrow> Some (Inr data, st')
             | (Throw e, st') \<Rightarrow> Some (Inl e, st')
             | (Break, st') \<Rightarrow> post_loop lower proxyConfigured ep st'
             | (FallThrough, st') \<Rightarrow>
                 Some (Inl (new_Error (lit ''Longcat request failed'') (lastError st')), st')))"

declare post_loop.simps [code]

definition post ::
  "(ustring \<Rightarrow> ustring) \<Rightarrow> bool \<Rightarrow> 'a endpoint \<Rightarrow> keymgr
     \<Rightarrow> ((jserr + 'a) \<times> post_state) option" where
  "post lower proxyConfigured ep k =
     post_loop lower proxyConfigured ep \<lparr>km = k, used = [], sleeps = [], lastError = None\<rparr>"

subsection \<open>Endpoint behaviours used in the statements about the client\<close>

text \<open>
  A call fails with a retryable transient error: \<open>fetch\<close> rejects with an error that
  \<open>isRetryableFetchError\<close> accepts, or the response carries a retryable status.
\<close>

definition transient :: "(ustring \<Rightarrow> ustring) \<Rightarrow> 'a fetch_outcome \<Rightarrow> bool" where
  "transient lower outcome =
     (case outcome of
        Rejects e \<Rightarrow> isRetryableFetchError lower e
      | Responds status detail body \<Rightarrow> status \<in> set RETRYABLE_STATUS_CODES)"

text \<open>A call fails with a credential rejection: the response has status 401 or 403.\<close>

definition rejected :: "'a fetch_outcome \<Rightarrow> bool" where
  "rejected outcome =
     (case outcome of
        Rejects e \<Rightarrow> False
      | Responds status detail body \<Rightarrow> status = 401 \<or> status = 403)"

text \<open>The error object that \<open>post\<close> builds for a failed call.\<close>

definition failure_error :: "'a fetch_outcome \<Rightarrow> jserr" where
  "failure_error outcome =
     (case outcome of
        Rejects e \<Rightarrow> e
      | Responds status detail body \<Rightarrow> status_error status detail)"

text \<open>The all-credentials-exhausted error, whose cause is the error of the last call.\<close>

definition all_rejected_error :: "'a fetch_outcome \<Rightarrow> jserr" where
  "all_rejected_error outcome =
     new_Error (lit ''All Longcat API keys were rejected by the server'')
       (Some (failure_error outcome))"

text \<open>An endpoint that answers every call with status 401 and an empty body.\<close>

definition always_401 :: "unit endpoint" where
  "always_401 n key = Responds 401 [] (Inl (new_Error (lit ''Unexpected end of JSON input'') None))"

text \<open>An endpoint that answers every call with status 503.\<close>

definition always_503 :: "unit endpoint" where
  "always_503 n key = Responds 503 (lit ''busy'') (Inl (new_Error (lit ''Unexpected end of JSON input'') None))"

text \<open>The states a key manager can be in: built by \<open>createKeyManager\<close>, then used.\<close>

inductive reachable :: "keymgr \<Rightarrow> bool" where
  created: "reachable (createKeyManager keys)"
| after_current: "reachable k \<Longrightarrow> reachable (snd (current k))"
| after_markInvalid: "reachable k \<Longrightarrow> reachable (snd (markInvalid key k))"

section \<open>JavaScript values and the platform\<close>

text \<open>A number: finite, \<open>NaN\<close>, or an infinity (\<open>True\<close> for the negative one).\<close>

datatype jsnum = Fin rat | NaN | Infinity bool

datatype jsval =
  JUndefined
| JNull
| JBool bool
| JNum jsnum
| JStr ustring
| JArr "jsval list"
| JObj "(ustring \<times> jsval) list"

text \<open>
  Functions of the JavaScript platform whose tables are not part of the repository
  (Unicode normalisation, case mapping and properties, number syntax, the JSON parser)
  are parameters of the model, collected in one record.
\<close>

record platform =
  normalizeNFKD :: "ustring \<Rightarrow> ustring"
  toLowerCase :: "ustring \<Rightarrow> ustring"
  toUpperCase :: "ustring \<Rightarrow> ustring"
  extendedPictographic :: "int \<Rightarrow> bool"
  stringToNumber :: "ustring \<Rightarrow> jsnum"
  numberToString :: "jsnum \<Rightarrow> ustring"
  JSON_parse :: "ustring \<Rightarrow> jsval option"

definition isFinite :: "jsnum \<Rightarrow> bool" where
  "isFinite n = (case n of Fin r \<Rightarrow> True | NaN \<Rightarrow> False | Infinity neg \<Rightarrow> False)"

text \<open>Truthiness, as \<open>!value\<close>, \<open>Boolean(value)\<close> and \<open>value || other\<close> test it.\<close>

definition truthy :: "jsval \<Rightarrow> bool" where
  "truthy v =
     (case v of
        JUndefined \<Rightarrow> False
      | JNull \<Rightarrow> False
      | JBool b \<Rightarrow> b
      | JNum n \<Rightarrow> (case n of Fin r \<Rightarrow> r \<noteq> 0 | NaN \<Rightarrow> False | Infinity neg \<Rightarrow> True)
      | JStr s \<Rightarrow> s \<noteq> []
      | JArr xs \<Rightarrow> True
      | JObj kvs \<Rightarrow> True)"

text \<open>\<open>value && typeof value === 'object'\<close>: an array or an object, not \<open>null\<close>.\<close>

definition is_object :: "jsval \<Rightarrow> bool" where
  "is_object v = (case v of JArr xs \<Rightarrow> True | JObj kvs \<Rightarrow> True | _ \<Rightarrow> False)"

text \<open>
  Reading a named property of an object or array that came out of the JSON parser; a
  missing property reads as \<open>undefined\<close>.
\<close>

definition get_prop :: "jsval \<Rightarrow> string \<Rightarrow> jsval" where
  "get_prop v k =
     (case v of
        JObj kvs \<Rightarrow> (case map_of kvs (lit k) of Some x \<Rightarrow> x | None \<Rightarrow> JUndefined)
      | _ \<Rightarrow> JUndefined)"

text \<open>\<open>String(value)\<close>.\<close>

fun String_js :: "platform \<Rightarrow> jsval \<Rightarrow> ustring" where
  "String_js E JUndefined = lit ''undefined''"
| "String_js E JNull = lit ''null''"
| "String_js E (JBool b) = (if b then lit ''true'' else lit ''false'')"
| "String_js E (JNum n) = numberToString E n"
| "String_js E (JStr s) = s"
| "String_js E (JArr xs) =
     join (lit '','') (map (\<lambda>x. if x = JNull \<or> x = JUndefined then [] else String_js E x) xs)"
| "String_js E (JObj kvs) = lit ''[object Object]''"

text \<open>\<open>Number(value)\<close>.\<close>

definition Number_js :: "platform \<Rightarrow> jsval \<Rightarrow> jsnum" where
  "Number_js E v =
     (case v of
        JUndefined \<Rightarrow> NaN
      | JNull \<Rightarrow> Fin 0
      | JBool b \<Rightarrow> Fin (if b then 1 else 0)
      | JNum n \<Rightarrow> n
      | JStr s \<Rightarrow> stringToNumber E s
      | JArr xs \<Rightarrow> stringToNumber E (String_js E v)
      | JObj kvs \<Rightarrow> NaN)"

text \<open>
  ASCII letters in lower case. A regular expression with the \<open>i\<close> flag and without the
  \<open>u\<close> flag matches an ASCII letter of its pattern against the two ASCII letters only.
\<close>

definition ascii_lower :: "ustring \<Rightarrow> ustring" where
  "ascii_lower s = map (\<lambda>c. if 65 \<le> c \<and> c \<le> 90 then c + 32 else c) s"

text \<open>The string starts with the pattern, letters compared without case.\<close>

definition starts_with_ci :: "string \<Rightarrow> ustring \<Rightarrow> bool" where
  "starts_with_ci pat s = (ascii_lower (take (length pat) s) = ascii_lower (lit pat))"

text \<open>\<open>String.prototype.indexOf\<close> for a substring; \<open>None\<close> for -1.\<close>

fun find_sub :: "ustring \<Rightarrow> ustring \<Rightarrow> nat option" where
  "find_sub needle [] = (if needle = [] then Some 0 else None)"
| "find_sub needle (c # cs) =
     (if prefix needle (c # cs) then Some 0 else map_option Suc (find_sub needle cs))"

definition type_error :: "string \<Rightarrow> jserr" where
  "type_error m = JSError (lit m) (lit ''TypeError'') None None None"

text \<open>\<open>xs.map(f)\<close> where \<open>f\<close> may throw: the first error ends the map.\<close>

fun map_result :: "('a \<Rightarrow> jserr + 'b) \<Rightarrow> 'a list \<Rightarrow> jserr + 'b list" where
  "map_result f [] = Inr []"
| "map_result f (x # xs) =
     (case f x of
        Inl e \<Rightarrow> Inl e
      | Inr y \<Rightarrow> (case map_result f xs of Inl e \<Rightarrow> Inl e | Inr ys \<Rightarrow> Inr (y # ys)))"

text \<open>\<open>String.prototype.lastIndexOf\<close> for one character; \<open>None\<close> for -1.\<close>

definition lastIndexOf :: "ustring \<Rightarrow> int \<Rightarrow> nat option" where
  "lastIndexOf s c =
     (case indexOf (rev s) c of None \<Rightarrow> None | Some i \<Rightarrow> Some (length s - 1 - i))"

section \<open>Text sanitation (part_006)\<close>

definition ASCII_REPLACEMENTS :: "(int \<times> ustring) list" where
  "ASCII_REPLACEMENTS =
     [(8220, [34]), (8221, [34]), (8222, [34]), (171, [34]), (187, [34]), (8223, [34]),
      (8216, [39]), (8217, [39]), (8218, [44]), (8219, [39]),
      (8211, [45]), (8212, [45]), (8213, [45]), (8722, [45]), (8208, [45]), (8209, [45]),
      (183, [45]), (8226, [45]), (8230, [46, 46, 46])]"

definition SUMMARY_PARAGRAPH_PLACEHOLDER :: ustring where
  "SUMMARY_PARAGRAPH_PLACEHOLDER = lit ''Summary forthcoming.''"

definition BULLET_FILLER_STRINGS :: "ustring list" where
  "BULLET_FILLER_STRINGS =
     [lit ''Add key detail drawn from the source material.'',
      lit ''Highlight a concrete detail from the document.'']"

text \<open>What the loop of \<open>toAscii\<close> appends for one code unit.\<close>

definition ascii_char :: "int \<Rightarrow> ustring" where
  "ascii_char c =
     (case map_of ASCII_REPLACEMENTS c of
        Some r \<Rightarrow> r
      | None \<Rightarrow>
          if c = 10 \<or> c = 13 \<or> c = 9 then [32]
          else if 32 \<le> c \<and> c \<le> 126 then [c]
          else [])"

text \<open>
  \<open>toAscii\<close> on a string. The loop runs over code points; a code point beyond the basic
  plane is two surrogate code units, neither of which is in the table or in the printable
  range, so the loop over code units appends the same characters.
\<close>

definition toAscii_str :: "platform \<Rightarrow> ustring \<Rightarrow> ustring" where
  "toAscii_str E s =
     concat (map ascii_char
       (filter (\<lambda>c. \<not> (768 \<le> c \<and> c \<le> 879)) (normalizeNFKD E s)))"

definition toAscii :: "platform \<Rightarrow> jsval \<Rightarrow> ustring" where
  "toAscii E v = (if v = JNull \<or> v = JUndefined then [] else toAscii_str E (String_js E v))"

text \<open>\<open>.replace(/\s+/g, ' ')\<close>; the flag says that the previous character was blank.\<close>

fun replace_ws_runs :: "bool \<Rightarrow> ustring \<Rightarrow> ustring" where
  "replace_ws_runs prev [] = []"
| "replace_ws_runs prev (c # cs) =
     (if is_ws c then (if prev then replace_ws_runs True cs else 32 # replace_ws_runs True cs)
      else c # replace_ws_runs False cs)"

definition collapseWhitespace :: "ustring \<Rightarrow> ustring" where
  "collapseWhitespace v = trim (replace_ws_runs False v)"

definition placeholderKey :: "platform \<Rightarrow> ustring \<Rightarrow> ustring" where
  "placeholderKey E v = toLowerCase E (collapseWhitespace (toAscii_str E v))"

definition PARAGRAPH_PLACEHOLDER_KEYS :: "platform \<Rightarrow> ustring list" where
  "PARAGRAPH_PLACEHOLDER_KEYS E =
     map (placeholderKey E) [SUMMARY_PARAGRAPH_PLACEHOLDER, lit ''Summary forthcoming'']"

definition BULLET_PLACEHOLDER_KEYS :: "platform \<Rightarrow> ustring list" where
  "BULLET_PLACEHOLDER_KEYS E =
     map (placeholderKey E)
       ([SUMMARY_PARAGRAPH_PLACEHOLDER, lit ''Summary forthcoming''] @ BULLET_FILLER_STRINGS)"

definition isPlaceholderParagraph :: "platform \<Rightarrow> ustring \<Rightarrow> bool" where
  "isPlaceholderParagraph E text =
     (let key = placeholderKey E text in key = [] \<or> key \<in> set (PARAGRAPH_PLACEHOLDER_KEYS E))"

definition isPlaceholderBullet :: "platform \<Rightarrow> ustring \<Rightarrow> bool" where
  "isPlaceholderBullet E text =
     (let key = placeholderKey E text in key = [] \<or> key \<in> set (BULLET_PLACEHOLDER_KEYS E))"

definition truncateSummaryText :: "platform \<Rightarrow> ustring \<Rightarrow> nat \<Rightarrow> ustring" where
  "truncateSummaryText E text maxChars =
     (let ascii = collapseWhitespace (toAscii_str E text)
      in if ascii = [] then []
         else if length ascii \<le> maxChars then ascii
         else
           let slice = take maxChars ascii
           in case lastIndexOf slice 32 of
                Some lastSpace \<Rightarrow>
                  if lastSpace > maxChars div 2 then trim (take lastSpace slice)
                  else trim slice
              | None \<Rightarrow> trim slice)"

text \<open>\<open>cleanBulletLine\<close> on a string: \<open>line.replace(/^[*\-\u2022]+\s*/, '').trim()\<close>.\<close>

definition is_marker :: "int \<Rightarrow> bool" where
  "is_marker c \<longleftrightarrow> c = 42 \<or> c = 45 \<or> c = 8226"

definition cleanBulletLine_str :: "ustring \<Rightarrow> ustring" where
  "cleanBulletLine_str line =
     (if line = [] then []
      else trim (if takeWhile is_marker line = [] then line
                 else dropWhile is_ws (dropWhile is_marker line)))"

text \<open>
  \<open>cleanBulletLine\<close> on any value: a falsy one gives the empty string; a truthy one that is
  not a string has no \<open>replace\<close> method, and the call throws a \<open>TypeError\<close>.
\<close>

definition cleanBulletLine :: "jsval \<Rightarrow> jserr + ustring" where
  "cleanBulletLine line =
     (if \<not> truthy line then Inr []
      else case line of
             JStr s \<Rightarrow> Inr (cleanBulletLine_str s)
           | _ \<Rightarrow> Inl (type_error ''line.replace is not a function''))"

text \<open>
  \<open>stripEmojiPrefix\<close>: the regular expression has the \<open>u\<close> flag and so reads code points;
  a high surrogate followed by a low one is one code point.
\<close>

definition is_high_surrogate :: "int \<Rightarrow> bool" where
  "is_high_surrogate c \<longleftrightarrow> 55296 \<le> c \<and> c \<le> 56319"

definition is_low_surrogate :: "int \<Rightarrow> bool" where
  "is_low_surrogate c \<longleftrightarrow> 56320 \<le> c \<and> c \<le> 57343"

definition code_point :: "int \<Rightarrow> int \<Rightarrow> int" where
  "code_point hi lo = 65536 + (hi - 55296) * 1024 + (lo - 56320)"

definition emoji_class :: "platform \<Rightarrow> int \<Rightarrow> bool" where
  "emoji_class E cp \<longleftrightarrow> extendedPictographic E cp \<or> cp = 8205 \<or> is_ws cp"

fun drop_emoji_prefix :: "platform \<Rightarrow> ustring \<Rightarrow> ustring" where
  "drop_emoji_prefix E [] = []"
| "drop_emoji_prefix E [c] = (if emoji_class E c then [] else [c])"
| "drop_emoji_prefix E (c # d # cs) =
     (if is_high_surrogate c \<and> is_low_surrogate d
      then (if emoji_class E (code_point c d) then drop_emoji_prefix E cs else c # d # cs)
      else if emoji_class E c then drop_emoji_prefix E (d # cs)
      else c # d # cs)"

definition stripEmojiPrefix :: "platform \<Rightarrow> ustring \<Rightarrow> ustring" where
  "stripEmojiPrefix E text = (if text = [] then [] else trim (drop_emoji_prefix E text))"

definition section_label :: "nat \<Rightarrow> ustring" where
  "section_label idx = lit ''Section '' @ show_nat (idx + 1)"

definition normalizeHeadline :: "platform \<Rightarrow> ustring \<Rightarrow> nat \<Rightarrow> ustring" where
  "normalizeHeadline E headlineText idx =
     (let fallback = section_label idx
      in if headlineText = [] then fallback
         else
           let cleaned = trim (filter (\<lambda>c. c \<noteq> 42)
                                 (stripEmojiPrefix E (cleanBulletLine_str headlineText)));
               ascii = collapseWhitespace (toAscii_str E cleaned)
           in if ascii = [] then fallback
              else let truncated = truncateSummaryText E ascii 64
                   in if truncated \<noteq> [] then truncated else fallback)"

text \<open>
  \<open>splitIntoSentences\<close>. The split \<open>/(?<=[.!?])\s+/\<close> cuts at every run of blanks that
  follows a full stop, an exclamation mark or a question mark; the first argument of
  \<open>split_sentences\<close> is the piece read so far, reversed.
\<close>

definition is_sentence_end :: "int \<Rightarrow> bool" where
  "is_sentence_end c \<longleftrightarrow> c = 46 \<or> c = 33 \<or> c = 63"

function split_sentences :: "ustring \<Rightarrow> ustring \<Rightarrow> ustring list" where
  "split_sentences cur [] = [rev cur]"
| "split_sentences cur (c # cs) =
     (if is_ws c \<and> cur \<noteq> [] \<and> is_sentence_end (hd cur)
      then rev cur # split_sentences [] (dropWhile is_ws cs)
      else split_sentences (c # cur) cs)"
  by pat_completeness auto
termination
proof (relation "measure (\<lambda>(cur, s). length s)", goal_cases)
  case 1
  show ?case by simp
next
  case (2 cur c cs)
  have "length (dropWhile is_ws cs) \<le> length cs"
    by (rule length_dropWhile_le)
  then show ?case by simp
next
  case (3 cur c cs)
  show ?case by simp
qed

text \<open>\<open>String.prototype.split\<close> with a one-character separator.\<close>

fun split_char :: "int \<Rightarrow> ustring \<Rightarrow> ustring \<Rightarrow> ustring list" where
  "split_char sep cur [] = [rev cur]"
| "split_char sep cur (c # cs) =
     (if c = sep then rev cur # split_char sep [] cs else split_char sep (c # cur) cs)"

definition splitIntoSentences :: "platform \<Rightarrow> ustring \<Rightarrow> ustring list" where
  "splitIntoSentences E text =
     (if text = [] then []
      else
        let normalized = collapseWhitespace (toAscii_str E text)
        in if normalized = [] then []
           else
             let sentences = filter (\<lambda>s. s \<noteq> []) (map trim (split_sentences [] normalized))
             in if sentences \<noteq> [] then sentences
                else filter (\<lambda>s. s \<noteq> []) (map trim (split_char 59 [] normalized)))"

definition paragraphHighlights :: "platform \<Rightarrow> ustring \<Rightarrow> ustring list" where
  "paragraphHighlights E para =
     take 4 (filter (\<lambda>s. s \<noteq> [])
               (map (\<lambda>sentence. truncateSummaryText E sentence 110)
                  (splitIntoSentences E para)))"

section \<open>The slide deck and the Content Normalizer (part_006)\<close>

record chart =
  chart_type :: ustring
  categories :: "ustring list"
  series :: "(ustring \<times> jsnum list) list"

record slide =
  headline :: ustring
  paragraph_text :: ustring
  bullets :: "ustring list"
  chart :: "chart option"

record deck =
  docTitle :: ustring
  slides :: "slide list"

text \<open>The JavaScript objects that the records stand for.\<close>

definition chart_to_js :: "chart \<Rightarrow> jsval" where
  "chart_to_js c =
     JObj [(lit ''type'', JStr (chart_type c)),
           (lit ''categories'', JArr (map JStr (categories c))),
           (lit ''series'',
            JArr (map (\<lambda>(label, vals).
                         JObj [(lit ''label'', JStr label),
                               (lit ''values'', JArr (map JNum vals))])
                    (series c)))]"

definition slide_to_js :: "slide \<Rightarrow> jsval" where
  "slide_to_js s =
     JObj [(lit ''headline'', JStr (headline s)),
           (lit ''paragraph'', JStr (paragraph_text s)),
           (lit ''bullets'', JArr (map JStr (bullets s))),
           (lit ''chart'', (case chart s of None \<Rightarrow> JNull | Some c \<Rightarrow> chart_to_js c))]"

definition deck_to_js :: "deck \<Rightarrow> jsval" where
  "deck_to_js d =
     JObj [(lit ''docTitle'', JStr (docTitle d)),
           (lit ''slides'', JArr (map slide_to_js (slides d)))]"

definition normalizeParagraph :: "platform \<Rightarrow> jsval \<Rightarrow> jsval \<Rightarrow> jserr + ustring" where
  "normalizeParagraph E para bulletFallback =
     (let text = (case para of JStr s \<Rightarrow> s | _ \<Rightarrow> []);
          cleaned = trim (replace_ws_runs False text)
      in if cleaned \<noteq> [] then Inr (truncateSummaryText E cleaned 420)
         else
           case bulletFallback of
             JArr entries \<Rightarrow>
               (case map_result cleanBulletLine entries of
                  Inl e \<Rightarrow> Inl e
                | Inr lines \<Rightarrow>
                    let fallback = join (lit '' '') (filter (\<lambda>l. l \<noteq> []) lines)
                    in if trim fallback \<noteq> [] then Inr (truncateSummaryText E fallback 420)
                       else Inr SUMMARY_PARAGRAPH_PLACEHOLDER)
           | _ \<Rightarrow> Inr SUMMARY_PARAGRAPH_PLACEHOLDER)"

text \<open>One round of the loop over the highlights: stop at four, skip what is there.\<close>

definition add_highlight :: "ustring list \<Rightarrow> ustring \<Rightarrow> ustring list" where
  "add_highlight cleaned highlight =
     (if length cleaned \<ge> 4 then cleaned
      else if highlight \<notin> set cleaned then cleaned @ [highlight]
      else cleaned)"

text \<open>The loop \<open>while (cleaned.length < 2)\<close> that appends the filler strings.\<close>

function pad_fillers :: "ustring list \<Rightarrow> ustring list" where
  "pad_fillers cleaned =
     (if length cleaned < 2
      then pad_fillers
             (cleaned @ [BULLET_FILLER_STRINGS ! (length cleaned mod length BULLET_FILLER_STRINGS)])
      else cleaned)"
  by pat_completeness auto
termination
  by (relation "measure (\<lambda>cleaned. 2 - length cleaned)") auto

declare pad_fillers.simps [simp del]

definition normalizeBullets :: "platform \<Rightarrow> jsval \<Rightarrow> ustring \<Rightarrow> jserr + ustring list" where
  "normalizeBullets E input para =
     (let raw = (case input of JArr entries \<Rightarrow> entries | _ \<Rightarrow> [])
      in case map_result cleanBulletLine raw of
           Inl e \<Rightarrow> Inl e
         | Inr lines \<Rightarrow>
             let cleaned = unique (map (\<lambda>v. truncateSummaryText E v 110)
                                     (filter (\<lambda>l. l \<noteq> []) lines));
                 highlights = paragraphHighlights E para;
                 withHighlights = foldl add_highlight cleaned highlights
             in Inr (take 4 (pad_fillers withHighlights)))"

definition series_entry :: "platform \<Rightarrow> jsval \<Rightarrow> (ustring \<times> jsnum list) option" where
  "series_entry E entry =
     (if \<not> truthy entry \<or> \<not> is_object entry then None
      else
        let label = (case get_prop entry ''label'' of JStr s \<Rightarrow> trim s | _ \<Rightarrow> []);
            vals = (case get_prop entry ''values'' of
                      JArr vs \<Rightarrow> filter isFinite (map (Number_js E) vs)
                    | _ \<Rightarrow> [])
        in if label = [] \<or> vals = [] then None else Some (label, take 20 vals))"

definition normalizeChart :: "platform \<Rightarrow> jsval \<Rightarrow> chart option" where
  "normalizeChart E input =
     (if \<not> truthy input \<or> \<not> is_object input then None
      else
        let type = (case get_prop input ''type'' of JStr s \<Rightarrow> toLowerCase E s | _ \<Rightarrow> [])
        in if type \<notin> set [lit ''bar'', lit ''line'', lit ''pie''] then None
           else
             let cats = (case get_prop input ''categories'' of
                           JArr vs \<Rightarrow>
                             take 20 (filter (\<lambda>v. trim v \<noteq> []) (map (String_js E) vs))
                         | _ \<Rightarrow> []);
                 sers = (case get_prop input ''series'' of
                           JArr vs \<Rightarrow>
                             let numericSeries = filter isFinite (map (Number_js E) vs)
                             in if length numericSeries = length vs \<and> numericSeries \<noteq> []
                                then
                                  let l = collapseWhitespace (toAscii E (get_prop input ''label''));
                                      label = (if l \<noteq> [] then l else lit ''Series 1'')
                                  in [(label, take 20 numericSeries)]
                                else take 6 (List.map_filter (series_entry E) vs)
                         | _ \<Rightarrow> [])
             in if cats = [] \<or> sers = [] then None
                else Some \<lparr>chart_type = type, categories = cats, series = sers\<rparr>)"

definition isSlideLike :: "jsval \<Rightarrow> bool" where
  "isSlideLike candidate =
     (if \<not> truthy candidate \<or> \<not> is_object candidate then False
      else
        let hl = (case get_prop candidate ''headline'' of JStr s \<Rightarrow> trim s | _ \<Rightarrow> []);
            para = (case get_prop candidate ''paragraph'' of JStr s \<Rightarrow> trim s | _ \<Rightarrow> []);
            bulletList = (case get_prop candidate ''bullets'' of
                            JArr entries \<Rightarrow>
                              filter (\<lambda>entry. case entry of JStr s \<Rightarrow> trim s \<noteq> [] | _ \<Rightarrow> False)
                                entries
                          | _ \<Rightarrow> [])
        in hl \<noteq> [] \<and> (para \<noteq> [] \<or> bulletList \<noteq> []))"

definition extractSlideCandidates :: "jsval \<Rightarrow> jsval list" where
  "extractSlideCandidates data =
     (if \<not> truthy data \<or> \<not> is_object data then []
      else case get_prop data ''slides'' of
             JArr xs \<Rightarrow> xs
           | _ \<Rightarrow>
               (case get_prop data ''sections'' of
                  JArr ys \<Rightarrow> ys
                | _ \<Rightarrow> if isSlideLike data then [data] else []))"

text \<open>The loop of \<open>deriveDocTitle\<close> over its candidates.\<close>

fun first_title :: "platform \<Rightarrow> jsval list \<Rightarrow> ustring" where
  "first_title E [] = lit ''Generated Summary''"
| "first_title E (candidate # rest) =
     (let cleaned = collapseWhitespace (toAscii E candidate)
      in if cleaned \<noteq> [] then truncateSummaryText E cleaned 120 else first_title E rest)"

definition deriveDocTitle :: "platform \<Rightarrow> jsval \<Rightarrow> slide list \<Rightarrow> ustring" where
  "deriveDocTitle E data normalizedSlides =
     first_title E
       ((if truthy data \<and> is_object data
         then map (get_prop data) [''docTitle'', ''title'', ''subject'', ''topic'', ''headline'']
         else [])
        @ (case normalizedSlides of [] \<Rightarrow> [] | s # rest \<Rightarrow> [JStr (headline s)]))"

text \<open>The body of the \<open>map\<close> in \<open>normalizeStructuredResponse\<close>.\<close>

definition normalize_candidate :: "platform \<Rightarrow> nat \<Rightarrow> jsval \<Rightarrow> jserr + slide" where
  "normalize_candidate E idx candidate =
     (let safeSlide = (if truthy candidate \<and> is_object candidate then candidate else JObj []);
          headlineText = (case get_prop safeSlide ''headline'' of
                            JStr s \<Rightarrow> (if trim s \<noteq> [] then trim s else section_label idx)
                          | _ \<Rightarrow> section_label idx)
      in case normalizeParagraph E (get_prop safeSlide ''paragraph'')
                (get_prop safeSlide ''bullets'') of
           Inl e \<Rightarrow> Inl e
         | Inr para \<Rightarrow>
             let hl = normalizeHeadline E headlineText idx
             in case normalizeBullets E (get_prop safeSlide ''bullets'') para of
                  Inl e \<Rightarrow> Inl e
                | Inr bs \<Rightarrow>
                    Inr \<lparr>headline = hl, paragraph_text = para, bullets = bs,
                         chart = normalizeChart E (get_prop safeSlide ''chart'')\<rparr>)"

text \<open>The slide pushed by \<open>while (normalizedSlides.length < 2)\<close>.\<close>

definition placeholder_slide :: "platform \<Rightarrow> nat \<Rightarrow> jserr + slide" where
  "placeholder_slide E idx =
     (case normalizeParagraph E (JStr []) (JArr []) of
        Inl e \<Rightarrow> Inl e
      | Inr para \<Rightarrow>
          let hl = normalizeHeadline E (section_label idx) idx
          in case normalizeBullets E (JArr []) para of
               Inl e \<Rightarrow> Inl e
             | Inr bs \<Rightarrow> Inr \<lparr>headline = hl, paragraph_text = para, bullets = bs, chart = None\<rparr>)"

function pad_slides :: "platform \<Rightarrow> slide list \<Rightarrow> jserr + slide list" where
  "pad_slides E normalizedSlides =
     (if length normalizedSlides < 2
      then (case placeholder_slide E (length normalizedSlides) of
              Inl e \<Rightarrow> Inl e
            | Inr s \<Rightarrow> pad_slides E (normalizedSlides @ [s]))
      else Inr normalizedSlides)"
  by pat_completeness auto
termination
  by (relation "measure (\<lambda>(E, xs). 2 - length xs)") auto

declare pad_slides.simps [simp del]

text \<open>
  The result of \<open>normalizeStructuredResponse\<close>: a value that is not an object or an array
  is returned as it is, anything else becomes a deck.
\<close>

datatype normalized = Unchanged jsval | Normalized deck

definition normalizeStructuredResponse :: "platform \<Rightarrow> jsval \<Rightarrow> jserr + normalized" where
  "normalizeStructuredResponse E data =
     (if \<not> truthy data \<or> \<not> is_object data then Inr (Unchanged data)
      else
        let slideCandidates = extractSlideCandidates data
        in case map_result (\<lambda>(idx, candidate). normalize_candidate E idx candidate)
                  (enumerate 0 (take 8 slideCandidates)) of
             Inl e \<Rightarrow> Inl e
           | Inr mapped \<Rightarrow>
               (case pad_slides E mapped of
                  Inl e \<Rightarrow> Inl e
                | Inr normalizedSlides \<Rightarrow>
                    Inr (Normalized \<lparr>docTitle = deriveDocTitle E data normalizedSlides,
                                     slides = normalizedSlides\<rparr>)))"

section \<open>The schema contract\<close>

text \<open>
  \<open>SummarySchema\<close>, \<open>SlideSchema\<close> and \<open>ChartSchema\<close> as the source declares them with the
  zod library; the library itself is not part of the repository, and its error object is
  modelled by its name only.
\<close>

definition ChartSchema_ok :: "chart \<Rightarrow> bool" where
  "ChartSchema_ok c \<longleftrightarrow>
     chart_type c \<in> set [lit ''bar'', lit ''line'', lit ''pie'']
     \<and> length (categories c) \<ge> 1
     \<and> length (series c) \<ge> 1
     \<and> list_all (\<lambda>(label, vals). length vals \<ge> 1 \<and> list_all (\<lambda>v. v \<noteq> NaN) vals) (series c)"

definition SlideSchema_ok :: "slide \<Rightarrow> bool" where
  "SlideSchema_ok s \<longleftrightarrow>
     length (paragraph_text s) \<ge> 1
     \<and> length (bullets s) \<ge> 2 \<and> length (bullets s) \<le> 4
     \<and> (case chart s of None \<Rightarrow> True | Some c \<Rightarrow> ChartSchema_ok c)"

definition SummarySchema_ok :: "deck \<Rightarrow> bool" where
  "SummarySchema_ok d \<longleftrightarrow>
     length (docTitle d) \<ge> 1
     \<and> length (slides d) \<ge> 2 \<and> length (slides d) \<le> 8
     \<and> list_all SlideSchema_ok (slides d)"

definition zod_error :: jserr where
  "zod_error = JSError (lit ''schema validation failed'') (lit ''ZodError'') None None None"

definition SummarySchema_parse :: "normalized \<Rightarrow> jserr + deck" where
  "SummarySchema_parse v =
     (case v of
        Unchanged x \<Rightarrow> Inl zod_error
      | Normalized d \<Rightarrow> if SummarySchema_ok d then Inr d else Inl zod_error)"

section \<open>A concrete platform for the examples\<close>

text \<open>
  The examples below run the model on concrete inputs. They use the following platform,
  which agrees with JavaScript on the strings the examples feed to it: printable ASCII
  strings and characters without a Unicode decomposition are their own NFKD form, case
  mapping changes the ASCII letters only, no ASCII character is pictographic. The
  examples contain no number and parse no JSON text through this platform.
\<close>

definition ascii_upper :: "ustring \<Rightarrow> ustring" where
  "ascii_upper s = map (\<lambda>c. if 97 \<le> c \<and> c \<le> 122 then c - 32 else c) s"

definition example_platform :: platform where
  "example_platform =
     \<lparr>normalizeNFKD = (\<lambda>s. s),
      toLowerCase = ascii_lower,
      toUpperCase = ascii_upper,
      extendedPictographic = (\<lambda>cp. False),
      stringToNumber = (\<lambda>s. NaN),
      numberToString = (\<lambda>n. lit ''NaN''),
      JSON_parse = (\<lambda>s. None)\<rparr>"

section \<open>Document statistics and the target slide count (part_006)\<close>

text \<open>
  \<open>text.split(/\n{2,}/)\<close>: the pieces between the maximal runs of two or more line
  feeds. The first argument is the piece read so far, reversed.
\<close>

function split_blank_lines :: "ustring \<Rightarrow> ustring \<Rightarrow> ustring list" where
  "split_blank_lines cur [] = [rev cur]"
| "split_blank_lines cur (c # cs) =
     (if c = 10 \<and> cs \<noteq> [] \<and> hd cs = 10
      then rev cur # split_blank_lines [] (dropWhile (\<lambda>x. x = 10) cs)
      else split_blank_lines (c # cur) cs)"
  by pat_completeness auto
termination
proof (relation "measure (\<lambda>(cur, s). length s)", goal_cases)
  case 1
  show ?case by simp
next
  case (2 cur c cs)
  have "length (dropWhile (\<lambda>x. x = 10) cs) \<le> length cs"
    by (rule length_dropWhile_le)
  then show ?case by simp
next
  case (3 cur c cs)
  show ?case by simp
qed

definition countSections :: "ustring \<Rightarrow> nat" where
  "countSections text =
     (let sections = filter (\<lambda>s. length s \<ge> 120) (map trim (split_blank_lines [] text));
          uniq = length (unique (map (take 80) sections))
      in max uniq (if sections \<noteq> [] then 1 else 0))"

text \<open>
  \<open>countNumericTokens\<close>: the number of matches of \<open>/\b\d+(?:\.\d+)?\b/g\<close>. The flag says
  whether the previous character is a word character.
\<close>

definition is_word :: "int \<Rightarrow> bool" where
  "is_word c \<longleftrightarrow> is_digit c \<or> (65 \<le> c \<and> c \<le> 90) \<or> (97 \<le> c \<and> c \<le> 122) \<or> c = 95"

function count_numeric :: "bool \<Rightarrow> ustring \<Rightarrow> nat" where
  "count_numeric prevWord [] = 0"
| "count_numeric prevWord (c # cs) =
     (if is_digit c \<and> \<not> prevWord
      then
        (case dropWhile is_digit cs of
           [] \<Rightarrow> 1
         | x # xs \<Rightarrow>
             if x = 46 \<and> xs \<noteq> [] \<and> is_digit (hd xs)
                \<and> (dropWhile is_digit xs = [] \<or> \<not> is_word (hd (dropWhile is_digit xs)))
             then 1 + count_numeric True (dropWhile is_digit xs)
             else if \<not> is_word x then 1 + count_numeric True (x # xs)
             else count_numeric True cs)
      else count_numeric (is_word c) cs)"
  by pat_completeness auto
termination
proof (relation "measure (\<lambda>(p, s). length s)", goal_cases)
  case 1
  show ?case by simp
next
  case (2 prevWord c cs x xs)
  have "length (dropWhile is_digit xs) \<le> length xs"
    by (rule length_dropWhile_le)
  moreover have "length (x # xs) \<le> length cs"
    unfolding 2(2) [symmetric] by (rule length_dropWhile_le)
  ultimately show ?case by simp
next
  case (3 prevWord c cs x xs)
  have "length (x # xs) \<le> length cs"
    unfolding 3(2) [symmetric] by (rule length_dropWhile_le)
  then show ?case by simp
next
  case (4 prevWord c cs x xs)
  show ?case by simp
next
  case (5 prevWord c cs)
  show ?case by simp
qed

definition countNumericTokens :: "ustring \<Rightarrow> nat" where
  "countNumericTokens text = count_numeric False text"

record stats =
  slideCount :: nat
  charCount :: nat
  numericTokens :: nat
  uniqueSections :: nat

definition determineSlideCount :: "ustring \<Rightarrow> stats" where
  "determineSlideCount text =
     (let chars = length text;
          tokens = countNumericTokens text;
          sects = countSections text;
          count1 = (if chars < 1200 \<and> sects \<le> 1 then 2
                    else if chars < 2600 \<and> sects \<le> 2 then 3
                    else if chars < 4200 then 4
                    else if chars < 6200 then 5
                    else if chars < 8800 then 6
                    else if chars < 11500 \<or> sects \<ge> 6 then 7
                    else 8);
          count2 = (if sects \<ge> 5 \<and> count1 < 6 then min 8 (max count1 6) else count1);
          count3 = min 8 (max 2 count2)
      in \<lparr>slideCount = count3, charCount = chars, numericTokens = tokens,
          uniqueSections = sects\<rparr>)"

section \<open>The Quality Gate (part_006)\<close>

text \<open>
  \<open>slideHasMeaningfulContent\<close> is applied to slides that passed \<open>SummarySchema.parse\<close>, to
  slides of the normalised fallback deck, and to \<open>null\<close> (\<open>None\<close>).
\<close>

definition slideHasMeaningfulContent :: "platform \<Rightarrow> slide option \<Rightarrow> bool" where
  "slideHasMeaningfulContent E sl =
     (case sl of
        None \<Rightarrow> False
      | Some s \<Rightarrow>
          let paragraphText = trim (replace_ws_runs False (paragraph_text s));
              bulletTexts = filter (\<lambda>t. t \<noteq> [] \<and> \<not> isPlaceholderBullet E t)
                              (map cleanBulletLine_str (bullets s));
              isParagraphPlaceholder = isPlaceholderParagraph E paragraphText;
              meaningfulBulletCount = length (filter (\<lambda>t. length t \<ge> 12) bulletTexts);
              totalBulletChars = foldl (\<lambda>sum t. sum + length t) 0 bulletTexts
          in if \<not> isParagraphPlaceholder \<and> length paragraphText \<ge> 80 then True
             else if meaningfulBulletCount \<ge> 2 \<and> totalBulletChars \<ge> 50 then True
             else if \<not> isParagraphPlaceholder \<and> length paragraphText \<ge> 40
                     \<and> (meaningfulBulletCount \<ge> 1 \<or> totalBulletChars \<ge> 30) then True
             else False)"

definition isDocTitleWeak :: "platform \<Rightarrow> ustring \<Rightarrow> bool" where
  "isDocTitleWeak E title =
     (if title = [] then True
      else
        let normalized = trim (replace_ws_runs False title)
        in if normalized = [] then True
           else toLowerCase E normalized
                  \<in> set [lit ''generated summary'', lit ''summary'', lit ''section 1'',
                          lit ''section one'', lit ''section 2'', lit ''section two''])"

section \<open>The Heuristic Fallback Summarizer (part_006)\<close>

text \<open>\<open>.replace(/\r\n/g, '\n')\<close>.\<close>

fun replace_crlf :: "ustring \<Rightarrow> ustring" where
  "replace_crlf (c # d # cs) =
     (if c = 13 \<and> d = 10 then 10 # replace_crlf cs else c # replace_crlf (d # cs))"
| "replace_crlf cs = cs"

definition is_alnum :: "int \<Rightarrow> bool" where
  "is_alnum c \<longleftrightarrow> is_digit c \<or> (65 \<le> c \<and> c \<le> 90) \<or> (97 \<le> c \<and> c \<le> 122)"

definition heuristicHeadline :: "platform \<Rightarrow> ustring \<Rightarrow> nat \<Rightarrow> ustring" where
  "heuristicHeadline E source idx =
     (let cleaned = cleanBulletLine_str source
      in if cleaned = [] then section_label idx
         else
           let trimmed = trim (dropWhile (\<lambda>c. \<not> is_alnum c) cleaned)
           in if trimmed = [] then section_label idx
              else truncateSummaryText E (toUpperCase E [hd trimmed] @ tl trimmed) 70)"

definition heuristicDocTitle :: "platform \<Rightarrow> ustring \<Rightarrow> ustring" where
  "heuristicDocTitle E source =
     (let cleaned = cleanBulletLine_str source
      in if cleaned = [] then lit ''Generated Summary'' else truncateSummaryText E cleaned 120)"

text \<open>
  \<open>buildFallbackSlides(seed)\<close>, for a seed that is an array of strings: the paragraph
  argument is the joined seed, or the array itself when the joined seed is empty.
\<close>

definition buildFallbackSlides :: "platform \<Rightarrow> ustring list \<Rightarrow> jserr + slide list" where
  "buildFallbackSlides E seed =
     (let joined = join (lit '' '') seed
      in case normalizeParagraph E (if joined \<noteq> [] then JStr joined else JArr (map JStr seed))
                (JArr []) of
           Inl e \<Rightarrow> Inl e
         | Inr para \<Rightarrow>
             (case normalizeBullets E (JArr []) para of
                Inl e \<Rightarrow> Inl e
              | Inr bs \<Rightarrow>
                  Inr [\<lparr>headline = lit ''Section 1'', paragraph_text = para, bullets = bs,
                        chart = None\<rparr>,
                       \<lparr>headline = lit ''Section 2'', paragraph_text = para, bullets = bs,
                        chart = None\<rparr>]))"

text \<open>One round of the loop of \<open>buildHeuristicSummary\<close> over the section indices.\<close>

definition heuristic_chunk :: "platform \<Rightarrow> ustring list \<Rightarrow> nat \<Rightarrow> nat \<Rightarrow> slide list" where
  "heuristic_chunk E sentences chunkSize idx =
     (let chunk = take chunkSize (drop (idx * chunkSize) sentences)
      in if chunk = [] then []
         else
           let para = truncateSummaryText E (join (lit '' '') chunk) 420;
               hl = heuristicHeadline E para idx;
               bs = take 4 (paragraphHighlights E para)
           in [\<lparr>headline = hl, paragraph_text = para, bullets = bs, chart = None\<rparr>])"

text \<open>
  The body of \<open>buildHeuristicSummary\<close> for a text that is not blank, in two steps: the
  number of sections, and the slides that the loop pushes.
\<close>

definition target_sections :: "stats \<Rightarrow> nat" where
  "target_sections st = min (max (if slideCount st \<noteq> 0 then slideCount st else 3) 2) 8"

definition heuristic_chunks :: "platform \<Rightarrow> ustring \<Rightarrow> stats \<Rightarrow> slide list" where
  "heuristic_chunks E cleaned st =
     (let sentences = splitIntoSentences E cleaned;
          targetSections = target_sections st;
          chunkSize = max 1 ((length sentences + targetSections - 1) div targetSections)
      in concat (map (heuristic_chunk E sentences chunkSize) [0..<targetSections]))"

definition buildHeuristicSummary :: "platform \<Rightarrow> ustring \<Rightarrow> stats \<Rightarrow> jserr + deck" where
  "buildHeuristicSummary E text st =
     (let cleaned = trim (replace_crlf text)
      in if cleaned = []
         then (case buildFallbackSlides E [lit ''No readable content found in document.''] of
                 Inl e \<Rightarrow> Inl e
               | Inr fs \<Rightarrow> Inr \<lparr>docTitle = lit ''Generated Summary'', slides = fs\<rparr>)
         else
           let chunks = heuristic_chunks E cleaned st
           in if chunks = []
              then (case buildFallbackSlides E [take 200 cleaned] of
                      Inl e \<Rightarrow> Inl e
                    | Inr fs \<Rightarrow> Inr \<lparr>docTitle = heuristicDocTitle E cleaned, slides = fs\<rparr>)
              else
                Inr \<lparr>docTitle = heuristicDocTitle E
                                   (if headline (hd chunks) \<noteq> [] then headline (hd chunks)
                                    else cleaned),
                     slides = take (target_sections st) chunks\<rparr>)"

section \<open>The Response Salvage Parser (part_006)\<close>

text \<open>\<open>safeParse\<close>: the platform's \<open>JSON.parse\<close>, with \<open>null\<close> for a syntax error.\<close>

definition safeParse :: "platform \<Rightarrow> ustring \<Rightarrow> jsval" where
  "safeParse E v = (case JSON_parse E v of Some x \<Rightarrow> x | None \<Rightarrow> JNull)"

text \<open>
  The first match of the fence pattern \<open>```(?:json)?\s*([\s\S]*?)```\<close> (flag \<open>i\<close>), as its
  captured group: after the first three backquotes an optional \<open>json\<close> and blanks are
  skipped, and the group runs up to the next three backquotes.
\<close>

definition fence :: ustring where
  "fence = [96, 96, 96]"

definition fencedMatch :: "ustring \<Rightarrow> ustring option" where
  "fencedMatch cleaned =
     (case find_sub fence cleaned of
        None \<Rightarrow> None
      | Some i \<Rightarrow>
          let after = drop (i + 3) cleaned;
              body = dropWhile is_ws (if starts_with_ci ''json'' after then drop 4 after else after)
          in case find_sub fence body of
               None \<Rightarrow> None
             | Some j \<Rightarrow> Some (take j body))"

definition tryExtractJson :: "platform \<Rightarrow> ustring \<Rightarrow> jsval option" where
  "tryExtractJson E content =
     (let cleaned = trim content;
          fromFence = (case fencedMatch cleaned of
                         Some inner \<Rightarrow> safeParse E (trim inner)
                       | None \<Rightarrow> JNull)
      in if truthy fromFence then Some fromFence
         else
           let direct = safeParse E cleaned
           in if truthy direct then Some direct
              else
                let fromBraces =
                      (case (indexOf cleaned 123, lastIndexOf cleaned 125) of
                         (Some firstBrace, Some lastBrace) \<Rightarrow>
                           if lastBrace > firstBrace
                           then safeParse E
                                  (trim (take (lastBrace + 1 - firstBrace) (drop firstBrace cleaned)))
                           else JNull
                       | _ \<Rightarrow> JNull)
                in if truthy fromBraces then Some fromBraces else None)"

text \<open>\<open>.replace(/\*\*/g, '')\<close>.\<close>

fun remove_double_stars :: "ustring \<Rightarrow> ustring" where
  "remove_double_stars (c # d # cs) =
     (if c = 42 \<and> d = 42 then remove_double_stars cs else c # remove_double_stars (d # cs))"
| "remove_double_stars cs = cs"

definition slide_label :: "nat \<Rightarrow> ustring" where
  "slide_label idx = lit ''Slide '' @ show_nat (idx + 1)"

definition cleanHeadline :: "platform \<Rightarrow> ustring \<Rightarrow> nat \<Rightarrow> ustring" where
  "cleanHeadline E line idx =
     (let stripped = stripEmojiPrefix E (remove_double_stars (cleanBulletLine_str line))
      in if stripped \<noteq> [] then stripped else slide_label idx)"

text \<open>\<open>block.split(/\n+/).map((line) => line.trim()).filter(Boolean)\<close>.\<close>

definition block_lines :: "ustring \<Rightarrow> ustring list" where
  "block_lines block = filter (\<lambda>l. l \<noteq> []) (map trim (split_runs (\<lambda>c. c = 10) block))"

text \<open>A slide read from free text: its headline and its bullets.\<close>

type_synonym text_slide = "ustring \<times> ustring list"

text \<open>
  The pattern of \<open>parseExplicitSlideBlocks\<close>,
  \<open>\*\*Slide\s+\d+:\*\*\s*([\s\S]*?)(?=(\*\*Slide\s+\d+:)|\(\d+\s+slides|\Z)\<close> with the flags
  \<open>g\<close> and \<open>i\<close>. \<open>slide_marker\<close> reads \<open>**Slide\<close>, blanks, digits and a colon and returns
  what follows; \<open>slide_header\<close> reads the marker, \<open>**\<close> and blanks. In JavaScript \<open>\Z\<close> is
  the letter \<open>Z\<close>, which the flag \<open>i\<close> lets match \<open>z\<close> too.
\<close>

definition slide_marker :: "ustring \<Rightarrow> ustring option" where
  "slide_marker s =
     (if starts_with_ci ''**Slide'' s \<and> length s \<ge> 7
      then
        let r1 = drop 7 s; r2 = dropWhile is_ws r1; r3 = dropWhile is_digit r2
        in if r2 \<noteq> r1 \<and> r3 \<noteq> r2 \<and> r3 \<noteq> [] \<and> hd r3 = 58 then Some (tl r3) else None
      else None)"

definition slide_header :: "ustring \<Rightarrow> ustring option" where
  "slide_header s =
     (case slide_marker s of
        None \<Rightarrow> None
      | Some r \<Rightarrow> if take 2 r = [42, 42] then Some (dropWhile is_ws (drop 2 r)) else None)"

definition block_end :: "ustring \<Rightarrow> bool" where
  "block_end s \<longleftrightarrow>
     slide_marker s \<noteq> None
     \<or> (s \<noteq> [] \<and> hd s = 40
         \<and> (let r1 = tl s; r2 = dropWhile is_digit r1; r3 = dropWhile is_ws r2
            in r2 \<noteq> r1 \<and> r3 \<noteq> r2 \<and> starts_with_ci ''slides'' r3 \<and> length r3 \<ge> 6))
     \<or> (s \<noteq> [] \<and> (hd s = 90 \<or> hd s = 122))"

text \<open>The lazy group: the shortest text after which the lookahead holds, and the rest.\<close>

fun lazy_block :: "ustring \<Rightarrow> ustring \<Rightarrow> (ustring \<times> ustring) option" where
  "lazy_block acc [] = None"
| "lazy_block acc (c # cs) =
     (if block_end (c # cs) then Some (rev acc, c # cs) else lazy_block (c # acc) cs)"

text \<open>What the body of the \<open>while\<close> loop does with one captured block.\<close>

definition explicit_slide :: "platform \<Rightarrow> ustring \<Rightarrow> nat \<Rightarrow> text_slide list" where
  "explicit_slide E captured n =
     (let block = trim captured
      in if block = [] then []
         else
           case block_lines block of
             [] \<Rightarrow> []
           | first # others \<Rightarrow>
               let headlineLine =
                     (if length first \<ge> 3 \<and> hd first = 42 \<and> last first = 42
                         \<and> 42 \<notin> set (butlast (tl first))
                      then trim (butlast (tl first)) else first);
                   hl = cleanHeadline E headlineLine n;
                   bs = take 5 (filter (\<lambda>l. l \<noteq> []) (map cleanBulletLine_str others))
               in [(hl, if bs \<noteq> [] then bs else [[]])])"

lemma lazy_block_length: "lazy_block acc s = Some (b, r) \<Longrightarrow> length r \<le> length s"
  by (induction acc s rule: lazy_block.induct) (auto split: if_splits)

lemma slide_header_length: "slide_header s = Some r \<Longrightarrow> length r < length s"
proof -
  assume h: "slide_header s = Some r"
  then obtain m where m: "slide_marker s = Some m" and r: "r = dropWhile is_ws (drop 2 m)"
    by (auto simp: slide_header_def split: option.splits if_splits)
  from m have "length m < length s"
  proof -
    let ?r1 = "drop 7 s"
    let ?r2 = "dropWhile is_ws ?r1"
    let ?r3 = "dropWhile is_digit ?r2"
    from m have "m = tl ?r3" and "?r3 \<noteq> []"
      by (auto simp: slide_marker_def Let_def split: if_splits)
    moreover have "length ?r3 \<le> length ?r2" by (rule length_dropWhile_le)
    moreover have "length ?r2 \<le> length ?r1" by (rule length_dropWhile_le)
    ultimately show ?thesis by (cases ?r3) auto
  qed
  moreover have "length r \<le> length (drop 2 m)"
    unfolding r by (rule length_dropWhile_le)
  ultimately show ?thesis by simp
qed

function explicit_blocks :: "platform \<Rightarrow> text_slide list \<Rightarrow> ustring \<Rightarrow> text_slide list" where
  "explicit_blocks E found [] = found"
| "explicit_blocks E found (c # cs) =
     (case slide_header (c # cs) of
        None \<Rightarrow> explicit_blocks E found cs
      | Some afterHeader \<Rightarrow>
          (case lazy_block [] afterHeader of
             None \<Rightarrow> explicit_blocks E found cs
           | Some (captured, rest) \<Rightarrow>
               explicit_blocks E (found @ explicit_slide E captured (length found)) rest))"
  by pat_completeness auto
termination
proof (relation "measure (\<lambda>(E, found, s). length s)", goal_cases)
  case 1
  show ?case by simp
next
  case (2 E found c cs)
  show ?case by simp
next
  case (3 E found c cs afterHeader)
  show ?case by simp
next
  case (4 E found c cs afterHeader x captured rest)
  from slide_header_length [OF 4(1)] lazy_block_length [of "[]" afterHeader captured rest] 4(2,3)
  show ?case by simp
qed

definition parseExplicitSlideBlocks :: "platform \<Rightarrow> ustring \<Rightarrow> text_slide list" where
  "parseExplicitSlideBlocks E text = explicit_blocks E [] text"

text \<open>
  \<open>text.split(/\n\s*\n/)\<close>: a separator starts at a line feed and ends at the last line
  feed of the blanks that follow it, when there is one.
\<close>

function split_paragraphs :: "ustring \<Rightarrow> ustring \<Rightarrow> ustring list" where
  "split_paragraphs cur [] = [rev cur]"
| "split_paragraphs cur (c # cs) =
     (let blanks = takeWhile is_ws cs
      in if c = 10 \<and> 10 \<in> set blanks
         then rev cur
              # split_paragraphs []
                  (drop (length blanks - length (takeWhile (\<lambda>x. x \<noteq> 10) (rev blanks))) cs)
         else split_paragraphs (c # cur) cs)"
  by pat_completeness auto
termination
  by (relation "measure (\<lambda>(cur, s). length s)") auto

definition grouped_slide :: "platform \<Rightarrow> nat \<times> ustring \<Rightarrow> text_slide list" where
  "grouped_slide E ib =
     (case ib of
        (idx, block) \<Rightarrow>
          (case block_lines block of
             [] \<Rightarrow> []
           | first # others \<Rightarrow>
               if others = [] then []
               else
                 let bulletCandidates = filter (\<lambda>l. l \<noteq> []) (map cleanBulletLine_str others)
                 in if bulletCandidates = [] then []
                    else [(cleanHeadline E first idx, take 5 bulletCandidates)]))"

definition parseGroupedSections :: "platform \<Rightarrow> ustring \<Rightarrow> text_slide list" where
  "parseGroupedSections E text =
     (let blocks = filter (\<lambda>b. b \<noteq> []) (map trim (split_paragraphs [] text))
      in concat (map (grouped_slide E) (enumerate 0 blocks)))"

definition buildSlidePayload :: "text_slide list \<Rightarrow> jsval option" where
  "buildSlidePayload found =
     (case found of
        [] \<Rightarrow> None
      | (hl, bs) # rest \<Rightarrow>
          Some (JObj [(lit ''docTitle'', JStr (if hl \<noteq> [] then hl else lit ''Generated Summary'')),
                      (lit ''slides'',
                       JArr (map (\<lambda>(h, b). JObj [(lit ''headline'', JStr h),
                                                  (lit ''bullets'', JArr (map JStr b)),
                                                  (lit ''chart'', JNull)])
                               found))]))"

definition parseSlidesFromText :: "platform \<Rightarrow> ustring \<Rightarrow> jsval option" where
  "parseSlidesFromText E content =
     (let text = replace_crlf content;
          explicitSlides = parseExplicitSlideBlocks E text
      in if explicitSlides \<noteq> [] then buildSlidePayload explicitSlides
         else
           let groupedSlides = parseGroupedSections E text
           in if groupedSlides \<noteq> [] then buildSlidePayload groupedSlides else None)"

text \<open>
  \<open>parseStructuredResponse\<close>. The content handed over by the client is any truthy value;
  one that is not a string has no \<open>trim\<close> method.
\<close>

definition parseStructuredResponse :: "platform \<Rightarrow> jsval \<Rightarrow> jserr + jsval" where
  "parseStructuredResponse E content =
     (if \<not> truthy content then Inl (new_Error (lit ''Longcat returned an empty response'') None)
      else
        case content of
          JStr s \<Rightarrow>
            (case tryExtractJson E s of
               Some jsonCandidate \<Rightarrow> Inr jsonCandidate
             | None \<Rightarrow>
                 (case parseSlidesFromText E s of
                    Some slideFallback \<Rightarrow> Inr slideFallback
                  | None \<Rightarrow> Inl (new_Error (lit ''Longcat response was not valid JSON'') None)))
        | _ \<Rightarrow> Inl (type_error ''content.trim is not a function''))"

section \<open>The Pipeline Orchestrator (part_006)\<close>

definition NETWORK_CODES :: "ustring list" where
  "NETWORK_CODES =
     [lit ''UND_ERR_CONNECT_TIMEOUT'', lit ''UND_ERR_HEADERS_TIMEOUT'', lit ''UND_ERR_SOCKET'',
      lit ''UND_ERR_BODY_TIMEOUT'', lit ''ECONNRESET'', lit ''ETIMEDOUT'', lit ''EHOSTUNREACH'',
      lit ''ENOTFOUND'', lit ''EAI_AGAIN'']"

definition isLikelyNetworkError :: "platform \<Rightarrow> jserr \<Rightarrow> bool" where
  "isLikelyNetworkError E error =
     (let cause = cause_or_self error; code = code_or_errno cause
      in if (case code of Some c \<Rightarrow> c \<noteq> [] \<and> c \<in> set NETWORK_CODES | None \<Rightarrow> False)
         then True
         else let message = toLowerCase E (joined_messages error)
              in str_includes message (lit ''fetch failed'') \<or> str_includes message (lit ''timeout'')
                 \<or> str_includes message (lit ''temporarily''))"

text \<open>
  The value returned by \<open>summarizeToSlides\<close>: the document (\<open>docTitle\<close> and \<open>slides\<close>), the
  statistics and the warnings.
\<close>

record summary_stats = stats +
  plannedSections :: nat
  targetSections :: nat
  fallbackReplacements :: "nat option"

record summary =
  document :: deck
  summaryStats :: summary_stats
  warnings :: "ustring list"

text \<open>
  The object built in both \<open>map\<close> callbacks from a slide: its paragraph, headline, bullets
  and chart normalised once more.
\<close>

definition renormalize_slide :: "platform \<Rightarrow> nat \<Rightarrow> slide \<Rightarrow> jserr + slide" where
  "renormalize_slide E idx s =
     (case normalizeParagraph E (JStr (paragraph_text s)) (JArr (map JStr (bullets s))) of
        Inl e \<Rightarrow> Inl e
      | Inr para \<Rightarrow>
          let hl = normalizeHeadline E (headline s) idx
          in case normalizeBullets E (JArr (map JStr (bullets s))) para of
               Inl e \<Rightarrow> Inl e
             | Inr bs \<Rightarrow>
                 Inr \<lparr>headline = hl, paragraph_text = para, bullets = bs,
                      chart = normalizeChart E
                                (case chart s of None \<Rightarrow> JNull | Some c \<Rightarrow> chart_to_js c)\<rparr>)"

definition extend_stats :: "stats \<Rightarrow> nat \<Rightarrow> nat \<Rightarrow> nat option \<Rightarrow> summary_stats" where
  "extend_stats st planned target replaced =
     \<lparr>slideCount = slideCount st, charCount = charCount st, numericTokens = numericTokens st,
      uniqueSections = uniqueSections st, plannedSections = planned, targetSections = target,
      fallbackReplacements = replaced\<rparr>"

text \<open>
  \<open>tryHeuristicFallback\<close>: \<open>None\<close> stands for the \<open>null\<close> returned for an error that is not
  network-classified; an \<open>Inl\<close> result is an error thrown while building the fallback.
\<close>

definition tryHeuristicFallback ::
  "platform \<Rightarrow> jserr \<Rightarrow> ustring \<Rightarrow> stats \<Rightarrow> jserr + summary option" where
  "tryHeuristicFallback E error text st =
     (if \<not> isLikelyNetworkError E error then Inr None
      else
        case buildHeuristicSummary E text st of
          Inl e \<Rightarrow> Inl e
        | Inr heuristic \<Rightarrow>
            (case (if SummarySchema_ok heuristic then Inr heuristic
                   else case normalizeStructuredResponse E (deck_to_js heuristic) of
                          Inl e \<Rightarrow> Inl e
                        | Inr n \<Rightarrow> SummarySchema_parse n) of
               Inl e \<Rightarrow> Inl e
             | Inr safe \<Rightarrow>
                 let desiredCount = min (max (slideCount st) 2) 8
                 in case (if take desiredCount (slides safe) \<noteq> []
                          then Inr (take desiredCount (slides safe))
                          else buildFallbackSlides E [SUMMARY_PARAGRAPH_PLACEHOLDER]) of
                      Inl e \<Rightarrow> Inl e
                    | Inr chosen \<Rightarrow>
                        (case map_result (\<lambda>(idx, s). renormalize_slide E idx s)
                                (enumerate 0 chosen) of
                           Inl e \<Rightarrow> Inl e
                         | Inr normalizedSlides \<Rightarrow>
                             Inr (Some
                               \<lparr>document = \<lparr>docTitle = docTitle safe, slides = normalizedSlides\<rparr>,
                                summaryStats = extend_stats st (length normalizedSlides)
                                                 desiredCount None,
                                warnings =
                                  [lit ''Longcat request failed; generated heuristic summary instead.'']\<rparr>))))"

text \<open>\<open>ensureFallbackData\<close>: the normalised heuristic summary of the source text.\<close>

definition ensureFallbackData :: "platform \<Rightarrow> ustring \<Rightarrow> stats \<Rightarrow> jserr + normalized" where
  "ensureFallbackData E text st =
     (case buildHeuristicSummary E text st of
        Inl e \<Rightarrow> Inl e
      | Inr heuristic \<Rightarrow> normalizeStructuredResponse E (deck_to_js heuristic))"

text \<open>
  \<open>pickFallbackSlide\<close>, given the fallback data: the slide at the index, or the last
  slide when the index is beyond the fallback deck, or \<open>null\<close> when there is no slide.
\<close>

definition pickFallbackSlide :: "normalized \<Rightarrow> nat \<Rightarrow> slide option" where
  "pickFallbackSlide fallback idx =
     (let fallbackSlides = (case fallback of Normalized d \<Rightarrow> slides d | Unchanged v \<Rightarrow> [])
      in if fallbackSlides = [] then None
         else if idx < length fallbackSlides then Some (fallbackSlides ! idx)
         else Some (last fallbackSlides))"

text \<open>
  The state threaded through the \<open>map\<close> over the slides: the document title, the counter
  \<open>fallbackReplacements\<close> and the slides produced so far.
\<close>

record gate_state =
  title :: ustring
  replacements :: nat
  produced :: "slide list"

definition fallback_title :: "normalized \<Rightarrow> ustring" where
  "fallback_title fallback = (case fallback of Normalized d \<Rightarrow> docTitle d | Unchanged v \<Rightarrow> [])"

definition gate_slide ::
  "platform \<Rightarrow> ustring \<Rightarrow> stats \<Rightarrow> gate_state \<Rightarrow> nat \<Rightarrow> slide option \<Rightarrow> jserr + gate_state" where
  "gate_slide E text st gs idx sl =
     (case (if \<not> slideHasMeaningfulContent E sl
            then (case ensureFallbackData E text st of
                    Inl e \<Rightarrow> Inl e
                  | Inr fallback \<Rightarrow>
                      let fallbackSlide = pickFallbackSlide fallback idx
                      in if slideHasMeaningfulContent E fallbackSlide
                         then Inr (fallbackSlide,
                                   gs\<lparr>replacements := replacements gs + 1,
                                      title := (if idx = 0 \<and> isDocTitleWeak E (title gs)
                                                   \<and> fallback_title fallback \<noteq> []
                                                then fallback_title fallback else title gs)\<rparr>)
                         else Inr (sl, gs))
            else Inr (sl, gs)) of
        Inl e \<Rightarrow> Inl e
      | Inr (sourceSlide, gs1) \<Rightarrow>
          let source = (case sourceSlide of
                          Some s \<Rightarrow> s
                        | None \<Rightarrow> \<lparr>headline = section_label idx, paragraph_text = [],
                                    bullets = [], chart = None\<rparr>)
          in case renormalize_slide E idx source of
               Inl e \<Rightarrow> Inl e
             | Inr n \<Rightarrow> Inr (gs1\<lparr>produced := produced gs1 @ [n]\<rparr>))"

fun gate_slides ::
  "platform \<Rightarrow> ustring \<Rightarrow> stats \<Rightarrow> gate_state \<Rightarrow> (nat \<times> slide option) list
     \<Rightarrow> jserr + gate_state" where
  "gate_slides E text st gs [] = Inr gs"
| "gate_slides E text st gs ((idx, sl) # rest) =
     (case gate_slide E text st gs idx sl of
        Inl e \<Rightarrow> Inl e
      | Inr gs1 \<Rightarrow> gate_slides E text st gs1 rest)"

text \<open>The loop \<open>while (slides.length < desiredCount)\<close>, which pads with \<open>null\<close>.\<close>

function fill_slides :: "slide list \<Rightarrow> nat \<Rightarrow> slide option list \<Rightarrow> slide option list" where
  "fill_slides parsedSlides desiredCount chosen =
     (if length chosen < desiredCount
      then fill_slides parsedSlides desiredCount
             (chosen @ [if length chosen < length parsedSlides
                        then Some (parsedSlides ! length chosen) else None])
      else chosen)"
  by pat_completeness auto
termination
  by (relation "measure (\<lambda>(p, d, chosen). d - length chosen)") auto

declare fill_slides.simps [simp del]

definition replacement_warning :: "nat \<Rightarrow> ustring" where
  "replacement_warning n =
     lit ''Longcat returned incomplete content; substituted heuristic text for ''
     @ show_nat n @ lit '' section'' @ (if n = 1 then [] else lit ''s'') @ lit ''.''"

text \<open>The part of \<open>summarizeToSlides\<close> after the \<open>try\<close> statement.\<close>

definition assemble :: "platform \<Rightarrow> ustring \<Rightarrow> stats \<Rightarrow> normalized \<Rightarrow> jserr + summary" where
  "assemble E text st structured =
     (case SummarySchema_parse structured of
        Inl e \<Rightarrow> Inl e
      | Inr parsed \<Rightarrow>
          let desiredCount = min (max (slideCount st) 2) 8;
              chosen0 = map Some (take desiredCount (slides parsed));
              chosen1 = (if chosen0 = [] then map Some (take 2 (slides parsed)) else chosen0);
              chosen2 = fill_slides (slides parsed) desiredCount chosen1;
              chosen3 = (if chosen2 = [] then replicate desiredCount None else chosen2)
          in case gate_slides E text st
                    \<lparr>title = docTitle parsed, replacements = 0, produced = []\<rparr>
                    (enumerate 0 chosen3) of
               Inl e \<Rightarrow> Inl e
             | Inr gs \<Rightarrow>
                 Inr \<lparr>document = \<lparr>docTitle = title gs, slides = produced gs\<rparr>,
                      summaryStats =
                        extend_stats st (length (produced gs)) desiredCount
                          (if replacements gs > 0 then Some (replacements gs) else None),
                      warnings = (if replacements gs > 0
                                  then [replacement_warning (replacements gs)] else [])\<rparr>)"

text \<open>
  \<open>summarizeToSlides\<close>, for a configured client. The argument \<open>completion\<close> is the outcome of
  \<open>await longcat.jsonCompletion(...)\<close>: an error thrown, or the content returned.
  \<open>remote_attempt\<close> is the body of the \<open>try\<close> statement.
\<close>

definition remote_attempt :: "platform \<Rightarrow> jserr + jsval \<Rightarrow> jserr + normalized" where
  "remote_attempt E completion =
     (case completion of
        Inl e \<Rightarrow> Inl e
      | Inr raw \<Rightarrow>
          (case parseStructuredResponse E raw of
             Inl e \<Rightarrow> Inl e
           | Inr candidate \<Rightarrow> normalizeStructuredResponse E candidate))"

definition summarizeToSlides ::
  "platform \<Rightarrow> jserr + jsval \<Rightarrow> ustring \<Rightarrow> jserr + summary" where
  "summarizeToSlides E completion text =
     (if trim text = [] then Inl (new_Error (lit ''No text content extracted from PDF'') None)
      else
        let st = determineSlideCount text
        in case remote_attempt E completion of
             Inl error \<Rightarrow>
               (case tryHeuristicFallback E error text st of
                  Inl e \<Rightarrow> Inl e
                | Inr None \<Rightarrow> Inl error
                | Inr (Some fallback) \<Rightarrow> Inr fallback)
           | Inr structured \<Rightarrow> assemble E text st structured)"

text \<open>
  \<open>jsonCompletion\<close> of the client: the content of the first choice of the payload that
  \<open>post\<close> returns. \<open>None\<close> means that \<open>post\<close> never returns.
\<close>

definition get_index :: "jsval \<Rightarrow> nat \<Rightarrow> jsval" where
  "get_index v i =
     (case v of
        JArr xs \<Rightarrow> (if i < length xs then xs ! i else JUndefined)
      | JStr s \<Rightarrow> (if i < length s then JStr [s ! i] else JUndefined)
      | _ \<Rightarrow> JUndefined)"

definition jsonCompletion ::
  "platform \<Rightarrow> bool \<Rightarrow> jsval endpoint \<Rightarrow> keymgr \<Rightarrow> (jserr + jsval) option" where
  "jsonCompletion E proxyConfigured ep k =
     (case post (toLowerCase E) proxyConfigured ep k of
        None \<Rightarrow> None
      | Some (Inl e, st) \<Rightarrow> Some (Inl e)
      | Some (Inr data, st) \<Rightarrow>
          let content = get_prop (get_prop (get_index (get_prop data ''choices'') 0) ''message'')
                          ''content''
          in if \<not> truthy content then Some (Inl (new_Error (lit ''Longcat returned no content'') None))
             else Some (Inr content))"

section \<open>The claims of the specification, as definitions\<close>

subsection \<open>The target slide count, in the words of the specification\<close>

definition claimed_slide_count :: "nat \<Rightarrow> nat \<Rightarrow> nat" where
  "claimed_slide_count chars sects =
     (let base = (if chars < 1200 \<and> sects \<le> 1 then 2
                  else if chars < 2600 \<and> sects \<le> 2 then 3
                  else if chars < 4200 then 4
                  else if chars < 6200 then 5
                  else if chars < 8800 then 6
                  else if chars < 11500 \<or> sects \<ge> 6 then 7
                  else 8);
          raised = (if sects \<ge> 5 \<and> base < 6 then 6 else base)
      in min 8 (max 2 raised))"

subsection \<open>The Quality Gate, in the words of the specification\<close>

text \<open>
  The paragraph and the bullets that the gate looks at: the paragraph with its blanks
  collapsed, and the cleaned bullets that are neither empty nor placeholders.
\<close>

definition gate_paragraph :: "slide \<Rightarrow> ustring" where
  "gate_paragraph s = trim (replace_ws_runs False (paragraph_text s))"

definition gate_bullets :: "platform \<Rightarrow> slide \<Rightarrow> ustring list" where
  "gate_bullets E s =
     filter (\<lambda>t. t \<noteq> [] \<and> \<not> isPlaceholderBullet E t) (map cleanBulletLine_str (bullets s))"

text \<open>A substantial bullet has at least 12 characters.\<close>

definition substantial :: "ustring \<Rightarrow> bool" where
  "substantial t \<longleftrightarrow> length t \<ge> 12"

text \<open>The three alternatives as the specification words them.\<close>

definition claimed_meaningful :: "platform \<Rightarrow> slide \<Rightarrow> bool" where
  "claimed_meaningful E s \<longleftrightarrow>
     (length (gate_paragraph s) \<ge> 80 \<and> \<not> isPlaceholderParagraph E (gate_paragraph s))
     \<or> (length (gate_bullets E s) \<ge> 2 \<and> sum_list (map length (gate_bullets E s)) \<ge> 50)
     \<or> (length (gate_paragraph s) \<ge> 40 \<and> \<not> isPlaceholderParagraph E (gate_paragraph s)
         \<and> (length (filter substantial (gate_bullets E s)) \<ge> 1
            \<or> sum_list (map length (gate_bullets E s)) \<ge> 30))"

text \<open>
  The alternatives as the code has them: the second one counts the substantial bullets
  only, while the total still runs over all the non-placeholder bullets.
\<close>

definition amended_meaningful :: "platform \<Rightarrow> slide \<Rightarrow> bool" where
  "amended_meaningful E s \<longleftrightarrow>
     (length (gate_paragraph s) \<ge> 80 \<and> \<not> isPlaceholderParagraph E (gate_paragraph s))
     \<or> (length (filter substantial (gate_bullets E s)) \<ge> 2
         \<and> sum_list (map length (gate_bullets E s)) \<ge> 50)
     \<or> (length (gate_paragraph s) \<ge> 40 \<and> \<not> isPlaceholderParagraph E (gate_paragraph s)
         \<and> (length (filter substantial (gate_bullets E s)) \<ge> 1
            \<or> sum_list (map length (gate_bullets E s)) \<ge> 30))"

text \<open>A slide with no paragraph and five bullets of ten characters each.\<close>

definition short_bullets_slide :: slide where
  "short_bullets_slide =
     \<lparr>headline = lit ''Overview'', paragraph_text = [],
      bullets = [lit ''alpha beta'', lit ''gamma dlta'', lit ''epsilon ze'', lit ''eta thetas'',
                 lit ''iota kappa''],
      chart = None\<rparr>"

subsection \<open>The salvage attempts\<close>

text \<open>The three parse attempts of \<open>tryExtractJson\<close>, each \<open>null\<close> when it does not apply.\<close>

definition fence_attempt :: "platform \<Rightarrow> ustring \<Rightarrow> jsval" where
  "fence_attempt E content =
     (case fencedMatch (trim content) of
        Some inner \<Rightarrow> safeParse E (trim inner)
      | None \<Rightarrow> JNull)"

definition direct_attempt :: "platform \<Rightarrow> ustring \<Rightarrow> jsval" where
  "direct_attempt E content = safeParse E (trim content)"

definition brace_attempt :: "platform \<Rightarrow> ustring \<Rightarrow> jsval" where
  "brace_attempt E content =
     (case (indexOf (trim content) 123, lastIndexOf (trim content) 125) of
        (Some firstBrace, Some lastBrace) \<Rightarrow>
          if lastBrace > firstBrace
          then safeParse E (trim (take (lastBrace + 1 - firstBrace) (drop firstBrace (trim content))))
          else JNull
      | _ \<Rightarrow> JNull)"

text \<open>The first attempt of a list that succeeds, that is, yields a truthy value.\<close>

fun first_success :: "jsval list \<Rightarrow> jsval option" where
  "first_success [] = None"
| "first_success (v # vs) = (if truthy v then Some v else first_success vs)"

text \<open>The order of the specification: direct parse, fenced block, braces.\<close>

definition claimed_extract :: "platform \<Rightarrow> ustring \<Rightarrow> jsval option" where
  "claimed_extract E content =
     first_success [direct_attempt E content, fence_attempt E content, brace_attempt E content]"

text \<open>The order of the code: fenced block, direct parse, braces.\<close>

definition amended_extract :: "platform \<Rightarrow> ustring \<Rightarrow> jsval option" where
  "amended_extract E content =
     first_success [fence_attempt E content, direct_attempt E content, brace_attempt E content]"

text \<open>
  A payload that is a JSON document and holds a fenced block inside a string: the text
  \<open>{"note":"```7```"}\<close>. The platform of the example parses this payload and the text
  \<open>7\<close> as \<open>JSON.parse\<close> does, and is not asked to parse anything else.
\<close>

definition fenced_payload :: ustring where
  "fenced_payload = lit ''{'' @ [34] @ lit ''note'' @ [34] @ lit '':'' @ [34] @ fence @ lit ''7''
                    @ fence @ [34] @ lit ''}''"

definition fenced_payload_value :: jsval where
  "fenced_payload_value = JObj [(lit ''note'', JStr (fence @ lit ''7'' @ fence))]"

definition fenced_platform :: platform where
  "fenced_platform =
     example_platform
       \<lparr>JSON_parse := (\<lambda>s. if s = fenced_payload then Some fenced_payload_value
                            else if s = lit ''7'' then Some (JNum (Fin 7))
                            else None)\<rparr>"

subsection \<open>The normaliser on slides whose fields are strings\<close>

text \<open>
  On a slide whose paragraph and bullets are strings no call throws, and the results of
  \<open>normalizeParagraph\<close> and \<open>normalizeBullets\<close> are the following values.
\<close>

definition typed_paragraph :: "platform \<Rightarrow> ustring \<Rightarrow> ustring list \<Rightarrow> ustring" where
  "typed_paragraph E p bs =
     (let cleaned = trim (replace_ws_runs False p)
      in if cleaned \<noteq> [] then truncateSummaryText E cleaned 420
         else
           let fallback = join (lit '' '') (filter (\<lambda>l. l \<noteq> []) (map cleanBulletLine_str bs))
           in if trim fallback \<noteq> [] then truncateSummaryText E fallback 420
              else SUMMARY_PARAGRAPH_PLACEHOLDER)"

definition typed_bullets :: "platform \<Rightarrow> ustring list \<Rightarrow> ustring \<Rightarrow> ustring list" where
  "typed_bullets E bs para =
     take 4 (pad_fillers
       (foldl add_highlight
          (unique (map (\<lambda>v. truncateSummaryText E v 110)
                     (filter (\<lambda>l. l \<noteq> []) (map cleanBulletLine_str bs))))
          (paragraphHighlights E para)))"

definition renormalized :: "platform \<Rightarrow> nat \<Rightarrow> slide \<Rightarrow> slide" where
  "renormalized E idx s =
     \<lparr>headline = normalizeHeadline E (headline s) idx,
      paragraph_text = typed_paragraph E (paragraph_text s) (bullets s),
      bullets = typed_bullets E (bullets s) (typed_paragraph E (paragraph_text s) (bullets s)),
      chart = normalizeChart E (case chart s of None \<Rightarrow> JNull | Some c \<Rightarrow> chart_to_js c)\<rparr>"

text \<open>The slide that stands for \<open>null\<close> in the \<open>map\<close> of \<open>summarizeToSlides\<close>.\<close>

definition default_slide :: "nat \<Rightarrow> slide" where
  "default_slide idx =
     \<lparr>headline = section_label idx, paragraph_text = [], bullets = [], chart = None\<rparr>"

definition or_default :: "nat \<Rightarrow> slide option \<Rightarrow> slide" where
  "or_default idx sl = (case sl of Some s \<Rightarrow> s | None \<Rightarrow> default_slide idx)"

text \<open>The headline that \<open>normalizeStructuredResponse\<close> hands to \<open>normalizeHeadline\<close>.\<close>

definition with_headline_text :: "nat \<Rightarrow> slide \<Rightarrow> slide" where
  "with_headline_text idx s =
     s\<lparr>headline := (if trim (headline s) \<noteq> [] then trim (headline s) else section_label idx)\<rparr>"

definition renormalized_slides :: "platform \<Rightarrow> slide list \<Rightarrow> slide list" where
  "renormalized_slides E ss =
     (let mapped = map (\<lambda>(idx, s). renormalized E idx (with_headline_text idx s))
                     (enumerate 0 (take 8 ss))
      in mapped @ map (\<lambda>idx. renormalized E idx (default_slide idx)) [length mapped..<2])"

definition renormalized_deck :: "platform \<Rightarrow> deck \<Rightarrow> deck" where
  "renormalized_deck E d =
     \<lparr>docTitle = deriveDocTitle E (deck_to_js d) (renormalized_slides E (slides d)),
      slides = renormalized_slides E (slides d)\<rparr>"

text \<open>The slides of \<open>buildFallbackSlides\<close> and the summary of \<open>buildHeuristicSummary\<close>.\<close>

definition typed_fallback_slides :: "platform \<Rightarrow> ustring list \<Rightarrow> slide list" where
  "typed_fallback_slides E seed =
     (let para = typed_paragraph E (join (lit '' '') seed) [];
          bs = typed_bullets E [] para
      in [\<lparr>headline = lit ''Section 1'', paragraph_text = para, bullets = bs, chart = None\<rparr>,
          \<lparr>headline = lit ''Section 2'', paragraph_text = para, bullets = bs, chart = None\<rparr>])"

definition heuristic_summary :: "platform \<Rightarrow> ustring \<Rightarrow> stats \<Rightarrow> deck" where
  "heuristic_summary E text st =
     (let cleaned = trim (replace_crlf text)
      in if cleaned = []
         then \<lparr>docTitle = lit ''Generated Summary'',
               slides = typed_fallback_slides E [lit ''No readable content found in document.'']\<rparr>
         else
           let chunks = heuristic_chunks E cleaned st
           in if chunks = []
              then \<lparr>docTitle = heuristicDocTitle E cleaned,
                    slides = typed_fallback_slides E [take 200 cleaned]\<rparr>
              else \<lparr>docTitle = heuristicDocTitle E
                                  (if headline (hd chunks) \<noteq> [] then headline (hd chunks)
                                   else cleaned),
                    slides = take (target_sections st) chunks\<rparr>)"

definition fallback_deck :: "platform \<Rightarrow> ustring \<Rightarrow> stats \<Rightarrow> deck" where
  "fallback_deck E text st = renormalized_deck E (heuristic_summary E text st)"

text \<open>The value that \<open>tryHeuristicFallback\<close> returns for a network-classified error.\<close>

definition fallback_summary :: "platform \<Rightarrow> ustring \<Rightarrow> stats \<Rightarrow> summary" where
  "fallback_summary E text st =
     (let heuristic = heuristic_summary E text st;
          safe = (if SummarySchema_ok heuristic then heuristic else renormalized_deck E heuristic);
          desiredCount = min (max (slideCount st) 2) 8;
          normalizedSlides = map (\<lambda>(idx, s). renormalized E idx s)
                               (enumerate 0 (take desiredCount (slides safe)))
      in \<lparr>document = \<lparr>docTitle = docTitle safe, slides = normalizedSlides\<rparr>,
          summaryStats = extend_stats st (length normalizedSlides) desiredCount None,
          warnings = [lit ''Longcat request failed; generated heuristic summary instead.'']\<rparr>)"

subsection \<open>Inputs of the examples\<close>

text \<open>
  A source text of two sections of 120 characters, each one sentence, separated by a
  blank line.
\<close>

definition two_section_text :: ustring where
  "two_section_text =
     lit ''Alpha'' @ replicate 114 97 @ lit ''.'' @ [10, 10]
     @ lit ''Bravo'' @ replicate 114 98 @ lit ''.''"

text \<open>A remote answer of two slides, both with a paragraph of 90 characters.\<close>

definition remote_two_slides :: deck where
  "remote_two_slides =
     \<lparr>docTitle = lit ''Report'',
      slides = [\<lparr>headline = lit ''First'', paragraph_text = lit ''One '' @ replicate 86 99,
                 bullets = [lit ''first point'', lit ''second point''], chart = None\<rparr>,
                \<lparr>headline = lit ''Second'', paragraph_text = lit ''Two '' @ replicate 86 100,
                 bullets = [lit ''third point'', lit ''fourth point''], chart = None\<rparr>]\<rparr>"

definition initial_gate_state :: gate_state where
  "initial_gate_state = \<lparr>title = lit ''Report'', replacements = 0, produced = []\<rparr>"

text \<open>
  An endpoint that rejects every credential with status 401 and a body that speaks of a
  temporary suspension, and the error that the client throws once its only credential is
  rejected.
\<close>

definition suspended_401 :: "jsval endpoint" where
  "suspended_401 n key =
     Responds 401 (lit ''API key temporarily suspended'')
       (Inl (new_Error (lit ''Unexpected token A in JSON at position 0'') None))"

definition suspended_error :: jserr where
  "suspended_error =
     new_Error (lit ''All Longcat API keys were rejected by the server'')
       (Some (new_Error (lit ''Longcat request failed (401): API key temporarily suspended'') None))"

definition short_text :: ustring where
  "short_text = lit ''Solar output rose in May. Wind output fell.''"

text \<open>The error that \<open>parseStructuredResponse\<close> throws for a response that cannot be salvaged.\<close>

definition malformed_error :: jserr where
  "malformed_error = new_Error (lit ''Longcat response was not valid JSON'') None"

text \<open>
  Candidates for the normaliser. The first has one slide whose paragraph is the Japanese
  word for "Japanese" (three ideographs, which NFKD leaves as they are); the second has one
  slide without a paragraph whose only bullet is the text of the second filler; the third
  has a number among its bullets.
\<close>

definition cjk_candidate :: jsval where
  "cjk_candidate =
     JObj [(lit ''slides'',
            JArr [JObj [(lit ''headline'', JStr (lit ''Overview'')),
                        (lit ''paragraph'', JStr [26085, 26412, 35486])]])]"

definition cjk_normalized :: deck where
  "cjk_normalized =
     \<lparr>docTitle = lit ''Overview'',
      slides = [\<lparr>headline = lit ''Overview'', paragraph_text = [],
                 bullets = [lit ''Add key detail drawn from the source material.'',
                            lit ''Highlight a concrete detail from the document.''],
                 chart = None\<rparr>,
                \<lparr>headline = lit ''Section 2'', paragraph_text = lit ''Summary forthcoming.'',
                 bullets = [lit ''Summary forthcoming.'',
                            lit ''Highlight a concrete detail from the document.''],
                 chart = None\<rparr>]\<rparr>"

definition filler_candidate :: jsval where
  "filler_candidate =
     JObj [(lit ''slides'',
            JArr [JObj [(lit ''headline'', JStr (lit ''Overview'')),
                        (lit ''bullets'',
                         JArr [JStr (lit ''Highlight a concrete detail from the document.'')])]])]"

definition filler_normalized :: deck where
  "filler_normalized =
     \<lparr>docTitle = lit ''Overview'',
      slides = [\<lparr>headline = lit ''Overview'',
                 paragraph_text = lit ''Highlight a concrete detail from the document.'',
                 bullets = [lit ''Highlight a concrete detail from the document.'',
                            lit ''Highlight a concrete detail from the document.''],
                 chart = None\<rparr>,
                \<lparr>headline = lit ''Section 2'', paragraph_text = lit ''Summary forthcoming.'',
                 bullets = [lit ''Summary forthcoming.'',
                            lit ''Highlight a concrete detail from the document.''],
                 chart = None\<rparr>]\<rparr>"

definition numeric_bullet_candidate :: jsval where
  "numeric_bullet_candidate =
     JObj [(lit ''slides'',
            JArr [JObj [(lit ''headline'', JStr (lit ''Overview'')),
                        (lit ''paragraph'', JStr (lit ''Sales grew.'')),
                        (lit ''bullets'', JArr [JNum (Fin 5)])]])]"

text \<open>
  A candidate whose headline and first bullet carry two list markers, and what one, two
  passes of the normaliser make of it.
\<close>

definition dashed_candidate :: jsval where
  "dashed_candidate =
     JObj [(lit ''slides'',
            JArr [JObj [(lit ''headline'', JStr (lit ''- - Plan'')),
                        (lit ''paragraph'', JStr (lit ''Sales grew.'')),
                        (lit ''bullets'', JArr [JStr (lit ''* - first point''),
                                               JStr (lit ''second point'')])]])]"

definition dashed_second_slide :: slide where
  "dashed_second_slide =
     \<lparr>headline = lit ''Section 2'', paragraph_text = lit ''Summary forthcoming.'',
      bullets = [lit ''Summary forthcoming.'',
                 lit ''Highlight a concrete detail from the document.''],
      chart = None\<rparr>"

definition dashed_once :: deck where
  "dashed_once =
     \<lparr>docTitle = lit ''- Plan'',
      slides = [\<lparr>headline = lit ''- Plan'', paragraph_text = lit ''Sales grew.'',
                 bullets = [lit ''- first point'', lit ''second point'', lit ''Sales grew.''],
                 chart = None\<rparr>,
                dashed_second_slide]\<rparr>"

definition dashed_twice :: deck where
  "dashed_twice =
     \<lparr>docTitle = lit ''- Plan'',
      slides = [\<lparr>headline = lit ''Plan'', paragraph_text = lit ''Sales grew.'',
                 bullets = [lit ''first point'', lit ''second point'', lit ''Sales grew.''],
                 chart = None\<rparr>,
                dashed_second_slide]\<rparr>"

subsection \<open>Canonical strings\<close>

text \<open>
  A printable string has ASCII characters from the space to the tilde only. A clean string
  is printable, has no two spaces in a row and neither starts nor ends with a space: the
  shape of everything \<open>collapseWhitespace(toAscii(...))\<close> returns.
\<close>

definition printable :: "ustring \<Rightarrow> bool" where
  "printable s \<longleftrightarrow> list_all (\<lambda>c. 32 \<le> c \<and> c \<le> 126) s"

definition clean :: "ustring \<Rightarrow> bool" where
  "clean s \<longleftrightarrow>
     printable s \<and> \<not> sublist [32, 32] s \<and> (s = [] \<or> (hd s \<noteq> 32 \<and> last s \<noteq> 32))"

text \<open>
  What the proofs about sanitised text assume of the platform: a printable string is its
  own NFKD form, \<open>toLowerCase\<close> changes its capital letters only, and no printable
  character has the property \<open>Extended_Pictographic\<close>. JavaScript satisfies all three.
\<close>

definition sane_platform :: "platform \<Rightarrow> bool" where
  "sane_platform E \<longleftrightarrow>
     (\<forall>s. printable s \<longrightarrow> normalizeNFKD E s = s)
     \<and> (\<forall>s. printable s \<longrightarrow> toLowerCase E s = ascii_lower s)
     \<and> (\<forall>c. 32 \<le> c \<and> c \<le> 126 \<longrightarrow> \<not> extendedPictographic E c)"

subsection \<open>The shape of a normalised slide\<close>

text \<open>
  What every chart that leaves \<open>normalizeChart\<close> satisfies: an allowed type, one to
  twenty categories that are not blank, and one to six series, each with a trimmed label
  and one to twenty finite values.
\<close>

definition series_ok :: "(ustring \<times> jsnum list) \<Rightarrow> bool" where
  "series_ok e \<longleftrightarrow> trim (fst e) = fst e \<and> fst e \<noteq> [] \<and> snd e \<noteq> []
                   \<and> list_all isFinite (snd e) \<and> length (snd e) \<le> 20"

definition chart_shape :: "chart \<Rightarrow> bool" where
  "chart_shape c \<longleftrightarrow>
     chart_type c \<in> set [lit ''bar'', lit ''line'', lit ''pie'']
     \<and> categories c \<noteq> [] \<and> length (categories c) \<le> 20
     \<and> list_all (\<lambda>x. trim x \<noteq> []) (categories c)
     \<and> series c \<noteq> [] \<and> length (series c) \<le> 6 \<and> list_all series_ok (series c)"

text \<open>
  What every slide that leaves \<open>normalizeStructuredResponse\<close> satisfies: its texts are
  printable ASCII without leading, trailing or double blanks and within their limits, it
  has two to four bullets, a list of fewer than four bullets holds every highlight of the
  paragraph, and a chart has the shape above.
\<close>

definition slide_invariant :: "platform \<Rightarrow> slide \<Rightarrow> bool" where
  "slide_invariant E s \<longleftrightarrow>
     clean (headline s) \<and> headline s \<noteq> [] \<and> length (headline s) \<le> 64
     \<and> clean (paragraph_text s) \<and> length (paragraph_text s) \<le> 420
     \<and> (\<forall>b\<in>set (bullets s). clean b \<and> length b \<le> 110)
     \<and> 2 \<le> length (bullets s) \<and> length (bullets s) \<le> 4
     \<and> (length (bullets s) < 4
          \<longrightarrow> set (paragraphHighlights E (paragraph_text s)) \<subseteq> set (bullets s))
     \<and> (case chart s of None \<Rightarrow> True | Some c \<Rightarrow> chart_shape c)"


text \<open>
  The slides that a second pass leaves as they are: the paragraph is not empty, the bullets
  are distinct, none is empty or starts with a list marker, and the headline does not start
  with a list marker and holds no asterisk.
\<close>

definition settled :: "slide \<Rightarrow> bool" where
  "settled s \<longleftrightarrow>
     paragraph_text s \<noteq> [] \<and> distinct (bullets s)
     \<and> list_all (\<lambda>b. b \<noteq> [] \<and> \<not> is_marker (hd b)) (bullets s)
     \<and> \<not> is_marker (hd (headline s)) \<and> 42 \<notin> set (headline s)"

section \<open>Properties of the credential pool\<close>

lemma indexOf_None_iff: "indexOf xs x = None \<longleftrightarrow> x \<notin> set xs"
  by (induction xs) auto

lemma indexOf_splice1: "indexOf xs x = Some i \<Longrightarrow> splice1 xs i = remove1 x xs"
  by (induction xs arbitrary: i) (auto simp: splice1_def split: if_splits)

lemma indexOf_mem: "x \<in> set xs \<Longrightarrow> \<exists>i. indexOf xs x = Some i"
  by (induction xs) auto

lemma set_insert_distinct: "distinct acc \<Longrightarrow> distinct (set_insert acc x)"
  by (simp add: set_insert_def)

lemma foldl_set_insert_distinct: "distinct acc \<Longrightarrow> distinct (foldl set_insert acc xs)"
  by (induction xs arbitrary: acc) (simp_all add: set_insert_distinct)

lemma set_foldl_set_insert: "set (foldl set_insert acc xs) = set acc \<union> set xs"
  by (induction xs arbitrary: acc) (auto simp: set_insert_def)

lemma distinct_unique: "distinct (unique xs)"
  by (simp add: unique_def foldl_set_insert_distinct)

lemma set_unique: "set (unique xs) = set xs"
  by (simp add: unique_def set_foldl_set_insert)

text \<open>
  The cursor never leaves position 0: it starts there, and every assignment to it is
  either 0 or its own remainder. The pool stays duplicate-free, without empty strings.
\<close>

lemma current_index: "index k = 0 \<Longrightarrow> index (snd (current k)) = 0"
  by (simp add: current_def Let_def)

lemma current_pool: "pool (snd (current k)) = pool k"
  by (simp add: current_def Let_def)

lemma markInvalid_index: "index k = 0 \<Longrightarrow> index (snd (markInvalid key k)) = 0"
  by (simp add: markInvalid_def current_def Let_def split: option.splits)

lemma markInvalid_pool_cases:
  "pool (snd (markInvalid key k)) = pool k
   \<or> pool (snd (markInvalid key k)) = remove1 (sanitizeKey key) (pool k)"
  by (auto simp: markInvalid_def current_def Let_def indexOf_splice1 split: option.splits)

lemma reachable_invariant:
  "reachable k \<Longrightarrow> index k = 0 \<and> distinct (pool k) \<and> [] \<notin> set (pool k)"
proof (induction rule: reachable.induct)
  case (created keys)
  show ?case
    by (simp add: createKeyManager_def distinct_unique set_unique)
next
  case (after_current k)
  then show ?case
    by (simp add: current_index current_pool)
next
  case (after_markInvalid k key)
  from markInvalid_pool_cases [of key k] after_markInvalid show ?case
    by (auto simp: markInvalid_index dest: notin_set_remove1)
qed

text \<open>
  Where \<open>sanitizeKey\<close> leaves the credential unchanged, \<open>markInvalid\<close> removes exactly
  that credential, returns the first credential that remains, and the rotation order of
  the new state is the old one without the removed credential.
\<close>

lemma markInvalid_stable_credential:
  assumes "reachable k" and "c \<in> set (pool k)" and "sanitizeKey c = c"
  shows "markInvalid c k =
           (case remove1 c (pool k) of [] \<Rightarrow> None | x # xs \<Rightarrow> Some x,
            \<lparr>pool = remove1 c (pool k), index = 0\<rparr>)"
    and "rotation (snd (markInvalid c k)) = filter (\<lambda>x. x \<noteq> c) (rotation k)"
proof -
  from reachable_invariant [OF assms(1)]
  have inv: "index k = 0" "distinct (pool k)" by simp_all
  from indexOf_mem [OF assms(2)] obtain i where i: "indexOf (pool k) c = Some i" by blast
  show first: "markInvalid c k =
           (case remove1 c (pool k) of [] \<Rightarrow> None | x # xs \<Rightarrow> Some x,
            \<lparr>pool = remove1 c (pool k), index = 0\<rparr>)"
    using i inv(1) assms(3) indexOf_splice1 [OF i]
    by (cases "remove1 c (pool k)") (simp_all add: markInvalid_def current_def Let_def)
  show "rotation (snd (markInvalid c k)) = filter (\<lambda>x. x \<noteq> c) (rotation k)"
    using inv by (simp add: first rotation_def distinct_remove1_removeAll removeAll_filter_not_eq)
       (metis (mono_tags, lifting) filter_cong)
qed

text \<open>
  C2 (code defect). \<open>markInvalid\<close> looks up \<open>sanitizeKey(key)\<close>, and \<open>sanitizeKey\<close> is not
  idempotent: the manager built from the keys \<open>1.2.abc\<close> and \<open>abc\<close> holds the credentials
  \<open>2.abc\<close> and \<open>abc\<close>; marking \<open>2.abc\<close> invalid removes \<open>abc\<close> instead, and keeps
  handing out \<open>2.abc\<close>.
\<close>

theorem C2_markInvalid_removes_other_credential:
  "pool (createKeyManager [lit ''1.2.abc'', lit ''abc'']) = [lit ''2.abc'', lit ''abc'']
   \<and> markInvalid (lit ''2.abc'') (createKeyManager [lit ''1.2.abc'', lit ''abc''])
       = (Some (lit ''2.abc''), \<lparr>pool = [lit ''2.abc''], index = 0\<rparr>)"
  by code_simp

section \<open>Properties of the failover client\<close>

lemma retryable_status_not_ok:
  "status \<in> set RETRYABLE_STATUS_CODES \<Longrightarrow>
     \<not> (200 \<le> status \<and> status \<le> 299) \<and> status \<noteq> 401 \<and> status \<noteq> 403"
  by (auto simp: RETRYABLE_STATUS_CODES_def)

lemma attempts_transient_retry:
  assumes "transient lower (ep (length (used st)) apiKey)" and "attempt < MAX_ATTEMPTS"
  shows "attempts lower pc ep apiKey attempt st =
           attempts lower pc ep apiKey (attempt + 1)
             (st\<lparr>used := used st @ [apiKey],
                 lastError := Some (failure_error (ep (length (used st)) apiKey)),
                 sleeps := sleeps st @ [backoffMs attempt]\<rparr>)"
proof (cases "ep (length (used st)) apiKey")
  case (Rejects e)
  with assms show ?thesis
    by (subst attempts.simps) (simp add: transient_def failure_error_def Let_def)
next
  case (Responds status detail body)
  with assms retryable_status_not_ok [of status] show ?thesis
    by (subst attempts.simps) (simp add: transient_def failure_error_def Let_def)
qed

lemma attempts_transient_last:
  assumes "transient lower (ep (length (used st)) apiKey)"
  shows "\<exists>e st'. attempts lower pc ep apiKey MAX_ATTEMPTS st = (Throw e, st')
           \<and> used st' = used st @ [apiKey] \<and> sleeps st' = sleeps st \<and> km st' = km st"
proof (cases "ep (length (used st)) apiKey")
  case (Rejects e)
  with assms show ?thesis
    by (subst attempts.simps) (simp add: transient_def Let_def)
next
  case (Responds status detail body)
  with assms retryable_status_not_ok [of status] show ?thesis
    by (subst attempts.simps) (simp add: transient_def Let_def)
qed

lemma attempts_transient:
  assumes "\<forall>n key. transient lower (ep n key)"
  shows "\<exists>e st'. attempts lower pc ep apiKey 1 st = (Throw e, st')
           \<and> used st' = used st @ [apiKey, apiKey, apiKey]
           \<and> sleeps st' = sleeps st @ [backoffMs 1, backoffMs 2] \<and> km st' = km st"
proof -
  let ?st1 = "st\<lparr>used := used st @ [apiKey],
                 lastError := Some (failure_error (ep (length (used st)) apiKey)),
                 sleeps := sleeps st @ [backoffMs 1]\<rparr>"
  let ?st2 = "?st1\<lparr>used := used ?st1 @ [apiKey],
                 lastError := Some (failure_error (ep (length (used ?st1)) apiKey)),
                 sleeps := sleeps ?st1 @ [backoffMs 2]\<rparr>"
  have one: "attempts lower pc ep apiKey 1 st = attempts lower pc ep apiKey 2 ?st1"
    using attempts_transient_retry [of lower ep st apiKey 1 pc] assms
    by (simp add: MAX_ATTEMPTS_def numeral_2_eq_2)
  have two: "attempts lower pc ep apiKey 2 ?st1 = attempts lower pc ep apiKey MAX_ATTEMPTS ?st2"
    using attempts_transient_retry [of lower ep ?st1 apiKey 2 pc] assms
    by (simp add: MAX_ATTEMPTS_def numeral_2_eq_2 numeral_3_eq_3)
  from attempts_transient_last [of lower ep ?st2 apiKey pc] assms
  obtain e st' where "attempts lower pc ep apiKey MAX_ATTEMPTS ?st2 = (Throw e, st')"
    and "used st' = used ?st2 @ [apiKey]" and "sleeps st' = sleeps ?st2" and "km st' = km ?st2"
    by blast
  then show ?thesis
    unfolding one two by simp
qed

text \<open>
  C4. With a pool of exactly one credential and an endpoint whose every call fails with a
  retryable transient error, \<open>post\<close> makes exactly \<open>MAX_ATTEMPTS = 3\<close> network calls, all with
  that credential, sleeps \<open>300 * 1\<close> and then \<open>300 * 2\<close> milliseconds between them, and
  ends by throwing an error.
\<close>

theorem C4_retry_ceiling:
  assumes "c \<noteq> []" and "\<forall>n key. transient lower (ep n key)"
  shows "\<exists>e st'. post lower pc ep \<lparr>pool = [c], index = i\<rparr> = Some (Inl e, st')
           \<and> used st' = [c, c, c] \<and> length (used st') = MAX_ATTEMPTS
           \<and> sleeps st' = [backoffMs 1, backoffMs 2] \<and> sleeps st' = [300 * 1, 300 * 2]"
proof -
  let ?k = "\<lparr>pool = [c], index = i\<rparr>"
  obtain k' where cur: "current ?k = (Some c, k')"
    by (cases i) (simp_all add: current_def Let_def)
  let ?st = "\<lparr>km = k', used = [], sleeps = [], lastError = None\<rparr>"
  from attempts_transient [OF assms(2), of pc c ?st]
  obtain e st' where "attempts lower pc ep c 1 ?st = (Throw e, st')"
    and "used st' = [c, c, c]" and "sleeps st' = [backoffMs 1, backoffMs 2]"
    by auto
  with cur assms(1) show ?thesis
    by (simp add: post_def post_loop.simps backoffMs_def MAX_ATTEMPTS_def)
qed

theorem C4_retry_ceiling_witness:
  "lit ''key-1'' \<noteq> [] \<and> (\<forall>n key. transient (\<lambda>s. s) (always_503 n key))
   \<and> (\<exists>e st'. post (\<lambda>s. s) False always_503 \<lparr>pool = [lit ''key-1''], index = 0\<rparr>
                 = Some (Inl e, st')
         \<and> used st' = [lit ''key-1'', lit ''key-1'', lit ''key-1'']
         \<and> length (used st') = MAX_ATTEMPTS
         \<and> sleeps st' = [backoffMs 1, backoffMs 2] \<and> sleeps st' = [300 * 1, 300 * 2])"
proof -
  have c: "lit ''key-1'' \<noteq> []"
    by (simp add: lit_def)
  have t: "\<forall>n key. transient (\<lambda>s. s) (always_503 n key)"
    by (simp add: transient_def always_503_def RETRYABLE_STATUS_CODES_def)
  from C4_retry_ceiling [OF c t, of False 0] c t show ?thesis
    by blast
qed

text \<open>
  Rotation under rejection. When \<open>sanitizeKey\<close> leaves every credential of the pool
  unchanged, a run in which every call is rejected uses each credential for exactly one
  call, in pool order, and throws the all-credentials-exhausted error whose cause is the
  error of the last call.
\<close>

lemma markInvalid_head:
  assumes "sanitizeKey p = p"
  shows "markInvalid p \<lparr>pool = p # rest, index = 0\<rparr> =
           (if rest = [] then None else Some (hd rest), \<lparr>pool = rest, index = 0\<rparr>)"
  using assms by (cases rest) (simp_all add: markInvalid_def splice1_def current_def Let_def)

lemma attempts_rejected_rotate:
  assumes "rejected (ep (length (used st)) p)" and "km st = \<lparr>pool = p # rest, index = 0\<rparr>"
    and "sanitizeKey p = p" and "\<forall>q\<in>set rest. q \<noteq> []"
  shows "attempts lower pc ep p 1 st =
           (if rest = [] then Throw (all_rejected_error (ep (length (used st)) p)) else Break,
            st\<lparr>used := used st @ [p],
                lastError := Some (failure_error (ep (length (used st)) p)),
                km := \<lparr>pool = rest, index = 0\<rparr>\<rparr>)"
proof (cases "ep (length (used st)) p")
  case (Rejects e)
  with assms(1) show ?thesis by (simp add: rejected_def)
next
  case (Responds status detail body)
  with assms(1) have st: "status = 401 \<or> status = 403" by (simp add: rejected_def)
  have hd: "rest \<noteq> [] \<Longrightarrow> hd rest \<noteq> []"
    using assms(4) by (cases rest) simp_all
  show ?thesis
    using st Responds assms(2) hd markInvalid_head [OF assms(3), of rest]
    by (subst attempts.simps)
       (auto simp add: Let_def MAX_ATTEMPTS_def all_rejected_error_def failure_error_def)
qed

lemma post_loop_all_rejected:
  assumes "\<forall>n key. rejected (ep n key)"
  shows "ps \<noteq> [] \<Longrightarrow> \<forall>p\<in>set ps. p \<noteq> [] \<and> sanitizeKey p = p \<Longrightarrow>
         km st = \<lparr>pool = ps, index = 0\<rparr> \<Longrightarrow>
         \<exists>st'. post_loop lower pc ep st =
                  Some (Inl (all_rejected_error
                               (ep (length (used st) + length ps - 1) (last ps))), st')
              \<and> used st' = used st @ ps \<and> sleeps st' = sleeps st \<and> pool (km st') = []"
proof (induction ps arbitrary: st)
  case Nil
  then show ?case by simp
next
  case (Cons p rest)
  then have cur: "current (km st) = (Some p, km st)" and p: "p \<noteq> []" "sanitizeKey p = p"
    by (simp_all add: current_def Let_def)
  let ?st1 = "st\<lparr>used := used st @ [p],
                 lastError := Some (failure_error (ep (length (used st)) p)),
                 km := \<lparr>pool = rest, index = 0\<rparr>\<rparr>"
  have att: "attempts lower pc ep p 1 st =
               (if rest = [] then Throw (all_rejected_error (ep (length (used st)) p)) else Break,
                ?st1)"
    using assms Cons.prems by (intro attempts_rejected_rotate) simp_all
  show ?case
  proof (cases "rest = []")
    case True
    with cur att p show ?thesis
      by (subst post_loop.simps) simp
  next
    case False
    with Cons.IH [of ?st1] Cons.prems
    obtain st' where "post_loop lower pc ep ?st1 =
        Some (Inl (all_rejected_error (ep (length (used ?st1) + length rest - 1) (last rest))), st')"
      and "used st' = used ?st1 @ rest" and "sleeps st' = sleeps ?st1" and "pool (km st') = []"
      by auto
    with cur att p False show ?thesis
      by (subst post_loop.simps) simp
  qed
qed

lemma post_all_rejected_stable_pool:
  assumes "\<forall>n key. rejected (ep n key)" and "ps \<noteq> []"
    and "\<forall>p\<in>set ps. p \<noteq> [] \<and> sanitizeKey p = p"
  shows "\<exists>st'. post lower pc ep \<lparr>pool = ps, index = 0\<rparr> =
                  Some (Inl (all_rejected_error (ep (length ps - 1) (last ps))), st')
              \<and> used st' = ps \<and> length (used st') \<le> length ps * MAX_ATTEMPTS
              \<and> sleeps st' = [] \<and> pool (km st') = []"
  using post_loop_all_rejected [OF assms(1,2,3),
      of "\<lparr>km = \<lparr>pool = ps, index = 0\<rparr>, used = [], sleeps = [], lastError = None\<rparr>" lower pc]
  by (auto simp: post_def MAX_ATTEMPTS_def)

text \<open>
  A rejected credential that \<open>sanitizeKey\<close> changes into a string outside the pool is
  never removed: \<open>markInvalid\<close> returns it again, and the loop of \<open>post\<close> goes on with it.
\<close>

lemma attempts_rejected_stuck:
  assumes "rejected (ep (length (used st)) p)" and "pool (km st) = p # ps" and "index (km st) = 0"
    and "p \<noteq> []" and "sanitizeKey p \<notin> set (p # ps)"
  shows "\<exists>st'. attempts lower pc ep p 1 st = (Break, st') \<and> km st' = km st"
proof (cases "ep (length (used st)) p")
  case (Rejects e)
  with assms(1) show ?thesis by (simp add: rejected_def)
next
  case (Responds status detail body)
  with assms(1) have st: "status = 401 \<or> status = 403" by (simp add: rejected_def)
  have "indexOf (pool (km st)) (sanitizeKey p) = None"
    using assms(2,5) by (simp only: indexOf_None_iff) simp
  then have mi: "markInvalid p (km st) = (Some p, km st)"
    using assms(2,3) by (simp add: markInvalid_def current_def Let_def)
  show ?thesis
    using st Responds mi assms(4)
    by (subst attempts.simps) (auto simp add: Let_def MAX_ATTEMPTS_def)
qed

lemma post_loop_stuck:
  fixes ep :: "'a endpoint"
  assumes "post_loop lower pc ep st = Some y"
    and "p \<noteq> []" and "sanitizeKey p \<notin> set (p # ps)"
  shows "\<not> ((\<forall>n key. rejected (ep n key)) \<and> pool (km st) = p # ps \<and> index (km st) = 0)"
proof -
  define Q where "Q = (\<lambda>(l :: ustring \<Rightarrow> ustring) (c :: bool) (e :: 'a endpoint) (s :: post_state)
      (r :: (jserr + 'a) \<times> post_state).
      \<not> ((\<forall>n key. rejected (e n key)) \<and> pool (km s) = p # ps \<and> index (km s) = 0))"
  have "Q lower pc ep st y"
  proof (rule post_loop.raw_induct [where P = Q, OF _ assms(1)], goal_cases)
    case (1 rec lower pc ep st y)
    show ?case
      unfolding Q_def
    proof
      assume inv: "(\<forall>n key. rejected (ep n key)) \<and> pool (km st) = p # ps \<and> index (km st) = 0"
      then have cur: "current (km st) = (Some p, km st)"
        by (simp add: current_def Let_def)
      from inv attempts_rejected_stuck [of ep st p ps lower pc] assms(2,3)
      obtain st' where att: "attempts lower pc ep p 1 st = (Break, st')" and km: "km st' = km st"
        by auto
      from 1(2) cur att assms(2) have "rec lower pc ep st' = Some y"
        by simp
      from 1(1) [OF this] inv km show False
        by (simp add: Q_def)
    qed
  qed
  then show ?thesis
    by (simp add: Q_def)
qed

lemma rejected_never_returns:
  assumes "\<forall>n key. rejected (ep n key)" and "p \<noteq> []" and "sanitizeKey p \<notin> set (p # ps)"
  shows "post lower pc ep \<lparr>pool = p # ps, index = 0\<rparr> = None"
proof (cases "post lower pc ep \<lparr>pool = p # ps, index = 0\<rparr>")
  case None
  then show ?thesis .
next
  case (Some y)
  then have "post_loop lower pc ep
               \<lparr>km = \<lparr>pool = p # ps, index = 0\<rparr>, used = [], sleeps = [], lastError = None\<rparr>
             = Some y"
    by (simp add: post_def)
  from post_loop_stuck [OF this assms(2,3)] assms(1) show ?thesis
    by simp
qed

text \<open>
  C5 (code defect). The client configured with the key \<open>1.2.3.abc\<close> holds the credentials
  \<open>3.abc\<close> and the built-in default. When every call is answered with status 401,
  \<open>markInvalid\<close> looks for \<open>abc\<close>, removes nothing and returns \<open>3.abc\<close> again: \<open>post\<close>
  never returns and never throws.
\<close>

theorem C5_rejected_credential_loops_forever:
  "pool (createKeyManager (resolveKeys (lit ''1.2.3.abc'') [] [] []))
     = [lit ''3.abc'', DEFAULT_LONGCAT_KEY]
   \<and> (\<forall>n key. rejected (always_401 n key))
   \<and> post lower pc always_401 (createKeyManager (resolveKeys (lit ''1.2.3.abc'') [] [] [])) = None"
proof -
  have k: "createKeyManager (resolveKeys (lit ''1.2.3.abc'') [] [] [])
             = \<lparr>pool = [lit ''3.abc'', DEFAULT_LONGCAT_KEY], index = 0\<rparr>"
    by code_simp
  have r: "\<forall>n key. rejected (always_401 n key)"
    by (simp add: rejected_def always_401_def)
  have p: "lit ''3.abc'' \<noteq> []"
    by (simp add: lit_def)
  have s: "sanitizeKey (lit ''3.abc'') \<notin> set [lit ''3.abc'', DEFAULT_LONGCAT_KEY]"
    by code_simp
  from rejected_never_returns [OF r p s] k r show ?thesis
    by simp
qed

section \<open>The normaliser on typed slides\<close>

lemma cleanBulletLine_JStr: "cleanBulletLine (JStr s) = Inr (cleanBulletLine_str s)"
  by (simp add: cleanBulletLine_def cleanBulletLine_str_def truthy_def)

lemma map_result_cleanBulletLine:
  "map_result cleanBulletLine (map JStr bs) = Inr (map cleanBulletLine_str bs)"
  by (induction bs) (simp_all add: cleanBulletLine_JStr)

lemma normalizeParagraph_typed:
  "normalizeParagraph E (JStr p) (JArr (map JStr bs)) = Inr (typed_paragraph E p bs)"
  by (simp add: normalizeParagraph_def typed_paragraph_def map_result_cleanBulletLine Let_def)

lemma normalizeBullets_typed:
  "normalizeBullets E (JArr (map JStr bs)) para = Inr (typed_bullets E bs para)"
  by (simp add: normalizeBullets_def typed_bullets_def map_result_cleanBulletLine Let_def)

lemma renormalize_slide_typed: "renormalize_slide E idx s = Inr (renormalized E idx s)"
  by (simp add: renormalize_slide_def renormalized_def normalizeParagraph_typed
      normalizeBullets_typed Let_def)

lemma lit_keys_distinct:
  "lit ''headline'' \<noteq> lit ''paragraph''" "lit ''headline'' \<noteq> lit ''bullets''"
  "lit ''headline'' \<noteq> lit ''chart''" "lit ''paragraph'' \<noteq> lit ''bullets''"
  "lit ''paragraph'' \<noteq> lit ''chart''" "lit ''bullets'' \<noteq> lit ''chart''"
  "lit ''docTitle'' \<noteq> lit ''slides''" "lit ''docTitle'' \<noteq> lit ''sections''"
  "lit ''slides'' \<noteq> lit ''sections''"
  "lit ''docTitle'' \<noteq> lit ''title''" "lit ''docTitle'' \<noteq> lit ''subject''"
  "lit ''docTitle'' \<noteq> lit ''topic''" "lit ''docTitle'' \<noteq> lit ''headline''"
  "lit ''slides'' \<noteq> lit ''title''" "lit ''slides'' \<noteq> lit ''subject''"
  "lit ''slides'' \<noteq> lit ''topic''" "lit ''slides'' \<noteq> lit ''headline''"
  "lit ''slides'' \<noteq> lit ''docTitle''"
  by (simp_all add: lit_def)

lemma slide_to_js_props:
  "get_prop (slide_to_js s) ''headline'' = JStr (headline s)"
  "get_prop (slide_to_js s) ''paragraph'' = JStr (paragraph_text s)"
  "get_prop (slide_to_js s) ''bullets'' = JArr (map JStr (bullets s))"
  "get_prop (slide_to_js s) ''chart'' = (case chart s of None \<Rightarrow> JNull | Some c \<Rightarrow> chart_to_js c)"
  "truthy (slide_to_js s)" "is_object (slide_to_js s)"
  using lit_keys_distinct
  by (simp_all add: get_prop_def slide_to_js_def truthy_def is_object_def)

lemma deck_to_js_props:
  "get_prop (deck_to_js d) ''docTitle'' = JStr (docTitle d)"
  "get_prop (deck_to_js d) ''slides'' = JArr (map slide_to_js (slides d))"
  "get_prop (deck_to_js d) ''title'' = JUndefined"
  "get_prop (deck_to_js d) ''subject'' = JUndefined"
  "get_prop (deck_to_js d) ''topic'' = JUndefined"
  "get_prop (deck_to_js d) ''headline'' = JUndefined"
  "truthy (deck_to_js d)" "is_object (deck_to_js d)"
  using lit_keys_distinct
  by (simp_all add: get_prop_def deck_to_js_def truthy_def is_object_def)

lemma normalize_candidate_typed:
  "normalize_candidate E idx (slide_to_js s) = Inr (renormalized E idx (with_headline_text idx s))"
  by (simp add: normalize_candidate_def slide_to_js_props normalizeParagraph_typed
      normalizeBullets_typed renormalized_def with_headline_text_def Let_def)

lemma map_result_map_Inr:
  "(\<And>y. y \<in> set ys \<Longrightarrow> f (h y) = Inr (g y)) \<Longrightarrow> map_result f (map h ys) = Inr (map g ys)"
  by (induction ys) simp_all

lemma placeholder_slide_typed:
  "placeholder_slide E idx = Inr (renormalized E idx (default_slide idx))"
proof -
  have p: "normalizeParagraph E (JStr []) (JArr []) = Inr (typed_paragraph E [] [])"
    using normalizeParagraph_typed [of E "[]" "[]"] by simp
  have b: "normalizeBullets E (JArr []) para = Inr (typed_bullets E [] para)" for para
    using normalizeBullets_typed [of E "[]" para] by simp
  have h: "normalizeHeadline E (section_label idx) idx = normalizeHeadline E (headline (default_slide idx)) idx"
    by (simp add: default_slide_def)
  show ?thesis
    by (simp add: placeholder_slide_def p b renormalized_def default_slide_def normalizeChart_def
        truthy_def Let_def)
qed

lemma pad_slides_typed:
  "pad_slides E xs =
     Inr (xs @ map (\<lambda>idx. renormalized E idx (default_slide idx)) [length xs..<2])"
proof (induction E xs rule: pad_slides.induct)
  case (1 E xs)
  show ?case
  proof (cases "length xs < 2")
    case True
    then have up: "[length xs..<2] = length xs # [Suc (length xs)..<2]"
      by (simp add: upt_rec)
    from True 1 [OF True placeholder_slide_typed] show ?thesis
      by (subst pad_slides.simps) (simp add: placeholder_slide_typed up)
  next
    case False
    then show ?thesis
      by (subst pad_slides.simps) simp
  qed
qed

lemma extractSlideCandidates_deck:
  "extractSlideCandidates (deck_to_js d) = map slide_to_js (slides d)"
  by (simp add: extractSlideCandidates_def deck_to_js_props)

lemma enumerate_map_snd: "enumerate n (map f xs) = map (\<lambda>(i, x). (i, f x)) (enumerate n xs)"
  by (induction xs arbitrary: n) simp_all

text \<open>A second pass over a deck never throws; its result is \<open>renormalized_deck\<close>.\<close>

lemma normalizeStructuredResponse_deck:
  "normalizeStructuredResponse E (deck_to_js d) = Inr (Normalized (renormalized_deck E d))"
proof -
  let ?f = "\<lambda>(idx, candidate). normalize_candidate E idx candidate"
  let ?g = "\<lambda>(idx, s). renormalized E idx (with_headline_text idx s)"
  let ?h = "\<lambda>(i, x). (i, slide_to_js x)"
  have en: "enumerate 0 (take 8 (map slide_to_js (slides d)))
              = map ?h (enumerate 0 (take 8 (slides d)))"
    by (simp add: take_map enumerate_map_snd)
  have mr: "map_result ?f (map ?h (enumerate 0 (take 8 (slides d))))
          = Inr (map ?g (enumerate 0 (take 8 (slides d))))"
    by (rule map_result_map_Inr) (auto simp: normalize_candidate_typed)
  show ?thesis
    by (simp add: normalizeStructuredResponse_def deck_to_js_props extractSlideCandidates_deck
        en mr pad_slides_typed renormalized_deck_def renormalized_slides_def Let_def)
qed

text \<open>The heuristic summariser never throws.\<close>

lemma buildFallbackSlides_typed:
  "buildFallbackSlides E seed = Inr (typed_fallback_slides E seed)"
proof -
  have b: "normalizeBullets E (JArr []) para = Inr (typed_bullets E [] para)" for para
    using normalizeBullets_typed [of E "[]" para] by simp
  have p1: "normalizeParagraph E (JStr j) (JArr []) = Inr (typed_paragraph E j [])" for j
    using normalizeParagraph_typed [of E j "[]"] by simp
  have p2: "normalizeParagraph E (JArr xs) (JArr []) = Inr (typed_paragraph E [] [])" for xs
    by (simp add: normalizeParagraph_def typed_paragraph_def trim_def Let_def)
  show ?thesis
    by (cases "join (lit '' '') seed = []")
       (simp_all add: buildFallbackSlides_def typed_fallback_slides_def b p1 p2 Let_def)
qed

lemma buildHeuristicSummary_typed:
  "buildHeuristicSummary E text st = Inr (heuristic_summary E text st)"
  by (simp add: buildHeuristicSummary_def heuristic_summary_def buildFallbackSlides_typed Let_def)

lemma ensureFallbackData_typed:
  "ensureFallbackData E text st = Inr (Normalized (fallback_deck E text st))"
  by (simp add: ensureFallbackData_def buildHeuristicSummary_typed
      normalizeStructuredResponse_deck fallback_deck_def)

lemma length_renormalized_slides: "2 \<le> length (renormalized_slides E ss)"
  by (cases "2 \<le> length (take 8 ss)") (auto simp add: renormalized_slides_def Let_def)


section \<open>Printable and clean strings\<close>

lemma printable_iff: "printable s \<longleftrightarrow> (\<forall>c\<in>set s. 32 \<le> c \<and> c \<le> 126)"
  by (simp add: printable_def list_all_iff)

lemma printable_simps [simp]:
  "printable []" "printable (c # cs) \<longleftrightarrow> 32 \<le> c \<and> c \<le> 126 \<and> printable cs"
  "printable (xs @ ys) \<longleftrightarrow> printable xs \<and> printable ys"
  "printable (rev xs) \<longleftrightarrow> printable xs"
  by (auto simp: printable_iff)

lemma printable_subset: "printable s \<Longrightarrow> set t \<subseteq> set s \<Longrightarrow> printable t"
  by (auto simp: printable_iff)

lemma printable_take: "printable s \<Longrightarrow> printable (take n s)"
  by (auto simp: printable_iff dest: in_set_takeD)

lemma printable_drop: "printable s \<Longrightarrow> printable (drop n s)"
  by (auto simp: printable_iff dest: in_set_dropD)

lemma printable_dropWhile: "printable s \<Longrightarrow> printable (dropWhile P s)"
  by (auto simp: printable_iff dest: set_dropWhileD)

lemma printable_takeWhile: "printable s \<Longrightarrow> printable (takeWhile P s)"
  by (auto simp: printable_iff dest: set_takeWhileD)

lemma printable_filter: "printable s \<Longrightarrow> printable (filter P s)"
  by (auto simp: printable_iff)

lemma printable_trim: "printable s \<Longrightarrow> printable (trim s)"
  by (simp add: trim_def printable_dropWhile)

lemma printable_concat: "(\<And>x. x \<in> set xs \<Longrightarrow> printable x) \<Longrightarrow> printable (concat xs)"
  by (induction xs) auto

lemma printable_lit_ws: "printable s \<Longrightarrow> c \<in> set s \<Longrightarrow> is_ws c \<longleftrightarrow> c = 32"
  by (auto simp: printable_iff is_ws_def)

lemma ascii_char_printable: "printable (ascii_char c)"
proof (cases "map_of ASCII_REPLACEMENTS c")
  case None
  then show ?thesis by (simp add: ascii_char_def)
next
  case (Some r)
  then have "(c, r) \<in> set ASCII_REPLACEMENTS" by (rule map_of_SomeD)
  then have "printable r" by (auto simp: ASCII_REPLACEMENTS_def)
  with Some show ?thesis by (simp add: ascii_char_def)
qed

lemma toAscii_str_printable: "printable (toAscii_str E s)"
  unfolding toAscii_str_def by (rule printable_concat) (auto simp: ascii_char_printable)

lemma ascii_char_id: "32 \<le> c \<Longrightarrow> c \<le> 126 \<Longrightarrow> ascii_char c = [c]"
proof -
  assume a: "32 \<le> c" "c \<le> 126"
  have "map_of ASCII_REPLACEMENTS c = None"
  proof (cases "map_of ASCII_REPLACEMENTS c")
    case None then show ?thesis .
  next
    case (Some r)
    then have "(c, r) \<in> set ASCII_REPLACEMENTS" by (rule map_of_SomeD)
    with a show ?thesis by (auto simp: ASCII_REPLACEMENTS_def)
  qed
  with a show ?thesis by (auto simp add: ascii_char_def)
qed

lemma concat_ascii_char_id: "printable s \<Longrightarrow> concat (map ascii_char s) = s"
  by (induction s) (simp_all add: ascii_char_id)

lemma toAscii_str_id: "sane_platform E \<Longrightarrow> printable s \<Longrightarrow> toAscii_str E s = s"
proof -
  assume s: "sane_platform E" and p: "printable s"
  then have n: "normalizeNFKD E s = s" by (simp add: sane_platform_def)
  have "filter (\<lambda>c. \<not> (768 \<le> c \<and> c \<le> 879)) s = s"
    using p by (auto simp: printable_iff intro!: filter_True)
  with n p show ?thesis
    by (simp add: toAscii_str_def concat_ascii_char_id)
qed

lemma trim_Nil [simp]: "trim [] = []"
  by (simp add: trim_def)

lemma dropWhile_all_iff: "(\<forall>x\<in>set (dropWhile P s). P x) \<longleftrightarrow> (\<forall>x\<in>set s. P x)"
proof
  assume a: "\<forall>x\<in>set (dropWhile P s). P x"
  have "dropWhile P s = []"
  proof (rule ccontr)
    assume n: "dropWhile P s \<noteq> []"
    then have "\<not> P (hd (dropWhile P s))" by (rule hd_dropWhile)
    moreover from n have "hd (dropWhile P s) \<in> set (dropWhile P s)" by simp
    ultimately show False using a by blast
  qed
  then show "\<forall>x\<in>set s. P x" by (simp add: dropWhile_eq_Nil_conv)
next
  assume "\<forall>x\<in>set s. P x"
  then show "\<forall>x\<in>set (dropWhile P s). P x" by (auto dest: set_dropWhileD)
qed

lemma trim_eq_Nil_iff: "trim s = [] \<longleftrightarrow> (\<forall>c\<in>set s. is_ws c)"
  by (simp add: trim_def dropWhile_eq_Nil_conv dropWhile_all_iff)

lemma rev_dropWhile_rev_id:
  "ys \<noteq> [] \<Longrightarrow> \<not> P (last ys) \<Longrightarrow> rev (dropWhile P (rev ys)) = ys"
  by (cases ys rule: rev_cases) simp_all

lemma trim_id: "s \<noteq> [] \<Longrightarrow> \<not> is_ws (hd s) \<Longrightarrow> \<not> is_ws (last s) \<Longrightarrow> trim s = s"
proof -
  assume a: "s \<noteq> []" "\<not> is_ws (hd s)" "\<not> is_ws (last s)"
  then have "dropWhile is_ws s = s" by (cases s) simp_all
  moreover have "rev (dropWhile is_ws (rev s)) = s"
    using a(1,3) by (rule rev_dropWhile_rev_id)
  ultimately show ?thesis by (simp add: trim_def)
qed

lemma rev_dropWhile_rev_prefix: "prefix (rev (dropWhile P (rev ys))) ys"
proof -
  have "rev ys = takeWhile P (rev ys) @ dropWhile P (rev ys)" by simp
  then have "ys = rev (dropWhile P (rev ys)) @ rev (takeWhile P (rev ys))"
    by (metis rev_append rev_rev_ident)
  then show ?thesis by (metis prefixI)
qed

lemma trim_sublist: "sublist (trim s) s"
proof -
  have "prefix (trim s) (dropWhile is_ws s)"
    unfolding trim_def by (rule rev_dropWhile_rev_prefix)
  then have "sublist (trim s) (dropWhile is_ws s)" by (rule prefix_imp_sublist)
  moreover have "suffix (dropWhile is_ws s) s" by (rule suffix_dropWhile)
  ultimately show ?thesis
    using suffix_imp_sublist sublist_order.order_trans by blast
qed

lemma trim_ends:
  assumes "trim s \<noteq> []"
  shows "\<not> is_ws (hd (trim s))" and "\<not> is_ws (last (trim s))"
proof -
  let ?d = "dropWhile is_ws s"
  have d: "?d \<noteq> []"
  proof
    assume e: "?d = []"
    have "trim s = []" unfolding trim_def e by simp
    with assms show False by simp
  qed
  then have hd: "\<not> is_ws (hd ?d)" by (rule hd_dropWhile)
  have pre: "prefix (trim s) ?d"
    unfolding trim_def by (rule rev_dropWhile_rev_prefix)
  with assms have "hd (trim s) = hd ?d"
    by (auto simp: prefix_def)
  with hd show "\<not> is_ws (hd (trim s))" by simp
  have "dropWhile is_ws (rev ?d) \<noteq> []" using assms by (simp add: trim_def)
  then have "\<not> is_ws (hd (dropWhile is_ws (rev ?d)))" by (rule hd_dropWhile)
  moreover have "last (trim s) = hd (dropWhile is_ws (rev ?d))"
    using assms by (simp add: trim_def last_rev)
  ultimately show "\<not> is_ws (last (trim s))" by simp
qed

lemma trim_idem [simp]: "trim (trim s) = trim s"
proof (cases "trim s = []")
  case True
  then show ?thesis by simp
next
  case False
  with trim_ends [OF False] show ?thesis by (simp add: trim_id)
qed

lemma is_ws_32 [simp]: "is_ws 32"
  by (simp add: is_ws_def)

lemma replace_ws_runs_set:
  "set (replace_ws_runs b s) \<subseteq> insert 32 {c \<in> set s. \<not> is_ws c}"
  by (induction b s rule: replace_ws_runs.induct) auto

lemma printable_replace_ws_runs: "printable s \<Longrightarrow> printable (replace_ws_runs b s)"
  using replace_ws_runs_set [of b s] by (auto simp: printable_iff)

lemma sublist_two_Cons:
  "sublist [a, b] (c # r) \<longleftrightarrow> (c = a \<and> r \<noteq> [] \<and> hd r = b) \<or> sublist [a, b] r"
  by (cases r) (auto simp: sublist_Cons_right)

lemma replace_ws_runs_shape:
  "\<not> sublist [32, 32] (replace_ws_runs b s)
   \<and> (b \<longrightarrow> replace_ws_runs b s = [] \<or> hd (replace_ws_runs b s) \<noteq> 32)"
proof (induction b s rule: replace_ws_runs.induct)
  case (1 prev)
  then show ?case by simp
next
  case (2 prev c cs)
  show ?case
  proof (cases "is_ws c")
    case True
    with 2 show ?thesis
      by (auto simp add: sublist_two_Cons)
  next
    case False
    then have "c \<noteq> 32" by auto
    with False 2 show ?thesis
      by (auto simp add: sublist_two_Cons)
  qed
qed

lemma replace_ws_runs_id:
  "printable s \<Longrightarrow> \<not> sublist [32, 32] s \<Longrightarrow> (b \<longrightarrow> s = [] \<or> hd s \<noteq> 32)
     \<Longrightarrow> replace_ws_runs b s = s"
proof (induction b s rule: replace_ws_runs.induct)
  case (1 prev)
  then show ?case by simp
next
  case (2 prev c cs)
  from 2(4) have pc: "32 \<le> c" "c \<le> 126" and pcs: "printable cs" by simp_all
  then have ws: "is_ws c \<longleftrightarrow> c = 32" by (auto simp: is_ws_def)
  from 2(5) have ns: "\<not> sublist [32, 32] cs" and nn: "\<not> (c = 32 \<and> cs \<noteq> [] \<and> hd cs = 32)"
    by (auto simp: sublist_two_Cons)
  show ?case
  proof (cases "c = 32")
    case True
    with 2(6) have np: "\<not> prev" by simp
    from True nn have "cs = [] \<or> hd cs \<noteq> 32" by auto
    with 2(2) [OF _ _ pcs ns] True ws np show ?thesis by simp
  next
    case False
    with 2(3) [OF _ pcs ns] ws show ?thesis by simp
  qed
qed

lemma clean_Nil [simp]: "clean []"
  by (simp add: clean_def)

lemma clean_trim:
  assumes "printable t" and "\<not> sublist [32, 32] t"
  shows "clean (trim t)"
proof -
  have p: "printable (trim t)" using assms(1) by (rule printable_trim)
  have n: "\<not> sublist [32, 32] (trim t)"
    using assms(2) trim_sublist [of t] sublist_order.order_trans by blast
  have e: "trim t = [] \<or> (hd (trim t) \<noteq> 32 \<and> last (trim t) \<noteq> 32)"
    using trim_ends [of t] by (cases "trim t = []") auto
  from p n e show ?thesis by (simp add: clean_def)
qed

lemma clean_collapseWhitespace: "printable s \<Longrightarrow> clean (collapseWhitespace s)"
  unfolding collapseWhitespace_def
  by (rule clean_trim) (simp_all add: printable_replace_ws_runs replace_ws_runs_shape)

lemma clean_trim_id: "clean s \<Longrightarrow> trim s = s"
proof (cases "s = []")
  case True
  then show ?thesis by simp
next
  case False
  assume c: "clean s"
  with False have "hd s \<noteq> 32" "last s \<noteq> 32" "printable s" by (simp_all add: clean_def)
  moreover from False have "hd s \<in> set s" "last s \<in> set s" by simp_all
  ultimately have "\<not> is_ws (hd s)" "\<not> is_ws (last s)"
    by (simp_all add: printable_lit_ws)
  with False show ?thesis by (simp add: trim_id)
qed

lemma clean_collapse_id: "clean s \<Longrightarrow> collapseWhitespace s = s"
proof -
  assume c: "clean s"
  then have "replace_ws_runs False s = s"
    by (intro replace_ws_runs_id) (simp_all add: clean_def)
  with c show ?thesis by (simp add: collapseWhitespace_def clean_trim_id)
qed

lemma clean_ws_collapse_id: "clean s \<Longrightarrow> trim (replace_ws_runs False s) = s"
  using clean_collapse_id by (simp add: collapseWhitespace_def)

lemma clean_trim_take: "clean s \<Longrightarrow> clean (trim (take n s))"
proof (rule clean_trim)
  assume c: "clean s"
  then show "printable (take n s)" by (simp add: clean_def printable_take)
  have "sublist (take n s) s" by (simp add: prefix_imp_sublist take_is_prefix)
  with c show "\<not> sublist [32, 32] (take n s)"
    using sublist_order.order_trans by (auto simp: clean_def)
qed

lemma clean_ascii: "clean (collapseWhitespace (toAscii_str E x))"
  by (simp add: clean_collapseWhitespace toAscii_str_printable)

subsection \<open>truncateSummaryText\<close>

lemma truncate_clean: "clean (truncateSummaryText E x n)"
proof -
  let ?a = "collapseWhitespace (toAscii_str E x)"
  have a: "clean ?a" by (rule clean_ascii)
  have t1: "clean (trim (take n ?a))" using a by (rule clean_trim_take)
  have t2: "clean (trim (take k (take n ?a)))" for k
    using clean_trim_take [OF a, of "min k n"] by (simp add: min.commute)
  show ?thesis
    using a t1 t2 by (simp add: truncateSummaryText_def Let_def split: option.split)
qed

lemma length_trim_le: "length (trim s) \<le> length s"
  using trim_sublist [of s] by (rule sublist_length_le)

lemma truncate_length: "length (truncateSummaryText E x n) \<le> n"
proof -
  let ?a = "collapseWhitespace (toAscii_str E x)"
  have t1: "length (trim (take n ?a)) \<le> n"
    using length_trim_le [of "take n ?a"] by simp
  have t2: "length (trim (take k (take n ?a))) \<le> n" for k
    using length_trim_le [of "take k (take n ?a)"] by simp
  show ?thesis
    using t1 t2 by (simp add: truncateSummaryText_def Let_def split: option.split)
qed

lemma truncate_id:
  "sane_platform E \<Longrightarrow> clean s \<Longrightarrow> length s \<le> n \<Longrightarrow> truncateSummaryText E s n = s"
  by (simp add: truncateSummaryText_def toAscii_str_id clean_collapse_id clean_def Let_def)

lemma truncate_fixed:
  "sane_platform E \<Longrightarrow> truncateSummaryText E (truncateSummaryText E x n) n = truncateSummaryText E x n"
  by (simp add: truncate_id truncate_clean truncate_length)

lemma collapse_eq_Nil_iff: "collapseWhitespace s = [] \<longleftrightarrow> (\<forall>c\<in>set s. is_ws c)"
proof -
  have "(\<forall>c\<in>set (replace_ws_runs b s). is_ws c) \<longleftrightarrow> (\<forall>c\<in>set s. is_ws c)" for b
    by (induction b s rule: replace_ws_runs.induct) auto
  then show ?thesis by (simp add: collapseWhitespace_def trim_eq_Nil_iff)
qed

lemma clean_nonempty_take:
  assumes "clean a" and "a \<noteq> []" and "0 < k"
  shows "trim (take k a) \<noteq> []"
proof -
  from assms(1,2) have "hd a \<noteq> 32" and p: "printable a" by (simp_all add: clean_def)
  moreover from assms(2) have "hd a \<in> set a" by simp
  ultimately have nw: "\<not> is_ws (hd a)" by (simp add: printable_lit_ws)
  from assms(2,3) have "hd a \<in> set (take k a)"
    by (cases a; cases k) simp_all
  with nw show ?thesis by (auto simp: trim_eq_Nil_iff)
qed

lemma truncate_nonempty:
  assumes "collapseWhitespace (toAscii_str E x) \<noteq> []" and "0 < n"
  shows "truncateSummaryText E x n \<noteq> []"
proof -
  let ?a = "collapseWhitespace (toAscii_str E x)"
  have a: "clean ?a" by (rule clean_ascii)
  have t1: "trim (take n ?a) \<noteq> []"
    using a assms by (rule clean_nonempty_take)
  have t2: "n div 2 < k \<Longrightarrow> trim (take k (take n ?a)) \<noteq> []" for k
    using clean_nonempty_take [OF a assms(1), of "min k n"] assms(2)
    by (simp add: min.commute)
  show ?thesis
    using assms(1) t1 t2 by (simp add: truncateSummaryText_def Let_def split: option.split)
qed


section \<open>The fallback never throws\<close>

lemma sane_example_platform: "sane_platform example_platform"
  by (simp add: sane_platform_def example_platform_def)

lemma clean_printable: "clean s \<Longrightarrow> printable s"
  by (simp add: clean_def)

lemma fillers_clean: "f \<in> set BULLET_FILLER_STRINGS \<Longrightarrow> clean f"
proof -
  have "clean (BULLET_FILLER_STRINGS ! 0)" "clean (BULLET_FILLER_STRINGS ! 1)"
    by code_simp+
  moreover assume "f \<in> set BULLET_FILLER_STRINGS"
  then have "f = BULLET_FILLER_STRINGS ! 0 \<or> f = BULLET_FILLER_STRINGS ! 1"
    by (auto simp: BULLET_FILLER_STRINGS_def)
  ultimately show ?thesis by auto
qed

lemma placeholder_clean: "clean SUMMARY_PARAGRAPH_PLACEHOLDER"
  by code_simp

lemma placeholder_nonempty: "SUMMARY_PARAGRAPH_PLACEHOLDER \<noteq> []"
  by (simp add: SUMMARY_PARAGRAPH_PLACEHOLDER_def lit_def)

lemma pad_fillers_length: "2 \<le> length (pad_fillers xs)"
  by (induction xs rule: pad_fillers.induct) (subst pad_fillers.simps, auto)

lemma pad_fillers_set: "set (pad_fillers xs) \<subseteq> set xs \<union> set BULLET_FILLER_STRINGS"
proof (induction xs rule: pad_fillers.induct)
  case (1 cleaned)
  show ?case
  proof (cases "length cleaned < 2")
    case True
    have "BULLET_FILLER_STRINGS ! (length cleaned mod length BULLET_FILLER_STRINGS)
            \<in> set BULLET_FILLER_STRINGS"
      by (rule nth_mem) (simp add: BULLET_FILLER_STRINGS_def)
    with 1 [OF True] True show ?thesis
      by (subst pad_fillers.simps) auto
  next
    case False
    then show ?thesis by (subst pad_fillers.simps) simp
  qed
qed

lemma pad_fillers_id: "2 \<le> length xs \<Longrightarrow> pad_fillers xs = xs"
  by (subst pad_fillers.simps) simp

lemma add_highlight_set: "set (add_highlight c h) \<subseteq> insert h (set c)"
  by (auto simp: add_highlight_def)

lemma foldl_add_highlight_set: "set (foldl add_highlight c hs) \<subseteq> set c \<union> set hs"
proof (induction hs arbitrary: c)
  case Nil
  then show ?case by simp
next
  case (Cons h hs)
  from Cons [of "add_highlight c h"] add_highlight_set [of c h] show ?case
    by auto
qed

lemma paragraphHighlights_clean: "h \<in> set (paragraphHighlights E p) \<Longrightarrow> clean h"
  by (auto simp: paragraphHighlights_def truncate_clean dest!: in_set_takeD)

lemma typed_bullets_length:
  "2 \<le> length (typed_bullets E bs p)" "length (typed_bullets E bs p) \<le> 4"
  using pad_fillers_length [of "foldl add_highlight
          (unique (map (\<lambda>v. truncateSummaryText E v 110)
                     (filter (\<lambda>l. l \<noteq> []) (map cleanBulletLine_str bs))))
          (paragraphHighlights E p)"]
  by (simp_all add: typed_bullets_def)

lemma typed_bullets_clean:
  assumes "b \<in> set (typed_bullets E bs p)"
  shows "clean b"
proof -
  let ?c = "unique (map (\<lambda>v. truncateSummaryText E v 110)
                     (filter (\<lambda>l. l \<noteq> []) (map cleanBulletLine_str bs)))"
  from assms have "b \<in> set (pad_fillers (foldl add_highlight ?c (paragraphHighlights E p)))"
    by (auto simp: typed_bullets_def dest: in_set_takeD)
  with pad_fillers_set foldl_add_highlight_set
  have "b \<in> set ?c \<or> b \<in> set (paragraphHighlights E p) \<or> b \<in> set BULLET_FILLER_STRINGS"
    by blast
  then show ?thesis
    by (auto simp: set_unique truncate_clean paragraphHighlights_clean fillers_clean)
qed

lemma typed_paragraph_clean: "clean (typed_paragraph E p bs)"
  by (simp add: typed_paragraph_def truncate_clean placeholder_clean Let_def)

lemma printable_join:
  "printable sep \<Longrightarrow> (\<And>x. x \<in> set xs \<Longrightarrow> printable x) \<Longrightarrow> printable (join sep xs)"
  by (induction sep xs rule: join.induct) simp_all

lemma printable_cleanBulletLine_str: "printable s \<Longrightarrow> printable (cleanBulletLine_str s)"
  by (simp add: cleanBulletLine_str_def printable_trim printable_dropWhile)

lemma truncate_nonempty_printable:
  assumes "sane_platform E" and "printable x" and "trim x \<noteq> []" and "0 < n"
  shows "truncateSummaryText E x n \<noteq> []"
proof (rule truncate_nonempty)
  from assms(1,2) have "toAscii_str E x = x" by (rule toAscii_str_id)
  moreover from assms(3) have "collapseWhitespace x \<noteq> []"
    by (simp add: collapse_eq_Nil_iff trim_eq_Nil_iff)
  ultimately show "collapseWhitespace (toAscii_str E x) \<noteq> []" by simp
  show "0 < n" by fact
qed

lemma typed_paragraph_nonempty:
  assumes "sane_platform E" and "printable p" and "\<And>b. b \<in> set bs \<Longrightarrow> printable b"
  shows "typed_paragraph E p bs \<noteq> []"
proof -
  let ?c = "trim (replace_ws_runs False p)"
  let ?f = "join (lit '' '') (filter (\<lambda>l. l \<noteq> []) (map cleanBulletLine_str bs))"
  have pc: "printable ?c" using assms(2) by (simp add: printable_trim printable_replace_ws_runs)
  have pf: "printable ?f"
    by (rule printable_join) (auto simp: lit_def assms(3) printable_cleanBulletLine_str)
  have c: "?c \<noteq> [] \<Longrightarrow> truncateSummaryText E ?c 420 \<noteq> []"
    using assms(1) pc by (intro truncate_nonempty_printable) simp_all
  have f: "trim ?f \<noteq> [] \<Longrightarrow> truncateSummaryText E ?f 420 \<noteq> []"
    using assms(1) pf by (intro truncate_nonempty_printable) simp_all
  show ?thesis
    using c f by (simp add: typed_paragraph_def placeholder_nonempty Let_def)
qed

lemma toAscii_printable: "printable (toAscii E v)"
  by (simp add: toAscii_def toAscii_str_printable)

lemma first_title_nonempty: "sane_platform E \<Longrightarrow> first_title E cs \<noteq> []"
proof (induction cs)
  case Nil
  then show ?case by (simp add: lit_def)
next
  case (Cons c cs)
  let ?cl = "collapseWhitespace (toAscii E c)"
  have cl: "clean ?cl" by (simp add: clean_collapseWhitespace toAscii_printable)
  have "?cl \<noteq> [] \<Longrightarrow> truncateSummaryText E ?cl 120 \<noteq> []"
    using Cons.prems cl
    by (intro truncate_nonempty_printable) (simp_all add: clean_printable clean_trim_id)
  with Cons show ?case by (simp add: Let_def)
qed

lemma normalizeChart_JNull: "normalizeChart E JNull = None"
  by (simp add: normalizeChart_def truthy_def)

lemma renormalized_schema_ok:
  assumes "sane_platform E" and "chart s = None" and "printable (paragraph_text s)"
    and "\<And>b. b \<in> set (bullets s) \<Longrightarrow> printable b"
  shows "SlideSchema_ok (renormalized E idx s)"
  using typed_paragraph_nonempty [OF assms(1,3,4)] assms(2)
    typed_bullets_length [of E "bullets s" "typed_paragraph E (paragraph_text s) (bullets s)"]
  by (cases "typed_paragraph E (paragraph_text s) (bullets s)")
     (simp_all add: SlideSchema_ok_def renormalized_def normalizeChart_JNull)

lemma renormalized_deck_schema_ok:
  assumes "sane_platform E"
    and "\<And>s. s \<in> set (slides h) \<Longrightarrow>
           chart s = None \<and> printable (paragraph_text s) \<and> (\<forall>b\<in>set (bullets s). printable b)"
  shows "SummarySchema_ok (renormalized_deck E h)"
proof -
  have title: "1 \<le> length (docTitle (renormalized_deck E h))"
    using first_title_nonempty [OF assms(1)]
    by (simp add: renormalized_deck_def deriveDocTitle_def Suc_le_eq)
  have len: "2 \<le> length (renormalized_slides E (slides h))"
    by (rule length_renormalized_slides)
  have len8: "length (renormalized_slides E (slides h)) \<le> 8"
    by (cases "2 \<le> length (take 8 (slides h))") (auto simp: renormalized_slides_def Let_def)
  have m: "SlideSchema_ok (renormalized E idx (with_headline_text idx s))"
    if "s \<in> set (slides h)" for idx s
    using assms(2) [OF that]
    by (auto intro!: renormalized_schema_ok [OF assms(1)] simp: with_headline_text_def)
  have p: "SlideSchema_ok (renormalized E idx (default_slide idx))" for idx
    by (auto intro!: renormalized_schema_ok [OF assms(1)] simp: default_slide_def)
  have each: "SlideSchema_ok x" if "x \<in> set (renormalized_slides E (slides h))" for x
    using that m p
    by (auto simp: renormalized_slides_def Let_def in_set_enumerate_eq)
  from title len len8 each show ?thesis
    by (simp add: SummarySchema_ok_def renormalized_deck_def list_all_iff)
qed

lemma typed_fallback_slides_ok:
  "s \<in> set (typed_fallback_slides E seed) \<Longrightarrow>
     chart s = None \<and> printable (paragraph_text s) \<and> (\<forall>b\<in>set (bullets s). printable b)"
  by (auto simp: typed_fallback_slides_def Let_def clean_printable typed_paragraph_clean
      typed_bullets_clean)

lemma heuristic_chunk_ok:
  "s \<in> set (heuristic_chunk E sentences chunkSize idx) \<Longrightarrow>
     chart s = None \<and> printable (paragraph_text s) \<and> (\<forall>b\<in>set (bullets s). printable b)"
  by (auto simp: heuristic_chunk_def Let_def clean_printable truncate_clean
      paragraphHighlights_clean dest!: in_set_takeD split: if_splits)

lemma heuristic_summary_ok:
  "s \<in> set (slides (heuristic_summary E srcText st)) \<Longrightarrow>
     chart s = None \<and> printable (paragraph_text s) \<and> (\<forall>b\<in>set (bullets s). printable b)"
  by (auto simp: heuristic_summary_def heuristic_chunks_def Let_def
      dest!: typed_fallback_slides_ok heuristic_chunk_ok in_set_takeD split: if_splits)

lemma tryHeuristicFallback_network:
  assumes "sane_platform E" and "isLikelyNetworkError E e"
  shows "tryHeuristicFallback E e srcText st = Inr (Some (fallback_summary E srcText st))"
proof -
  let ?h = "heuristic_summary E srcText st"
  let ?safe = "if SummarySchema_ok ?h then ?h else renormalized_deck E ?h"
  let ?d = "min (max (slideCount st) 2) 8"
  have ok: "SummarySchema_ok (renormalized_deck E ?h)"
    using assms(1) heuristic_summary_ok by (rule renormalized_deck_schema_ok)
  then have safe_ok: "SummarySchema_ok ?safe" by simp
  then have "2 \<le> length (slides ?safe)" by (simp add: SummarySchema_ok_def)
  then have ne: "take ?d (slides ?safe) \<noteq> []" by (cases "slides ?safe") auto
  have mr: "map_result (\<lambda>(idx, s). renormalize_slide E idx s) xs
              = Inr (map (\<lambda>(idx, s). renormalized E idx s) xs)" for xs
    using map_result_map_Inr [of xs "\<lambda>(idx, s). renormalize_slide E idx s" "\<lambda>x. x"
        "\<lambda>(idx, s). renormalized E idx s"]
    by (auto simp: renormalize_slide_typed)
  show ?thesis
  proof (cases "SummarySchema_ok ?h")
    case True
    with assms(2) ne mr show ?thesis
      by (simp add: tryHeuristicFallback_def buildHeuristicSummary_typed fallback_summary_def
          Let_def)
  next
    case False
    with assms(2) ne mr ok show ?thesis
      by (simp add: tryHeuristicFallback_def buildHeuristicSummary_typed fallback_summary_def
          normalizeStructuredResponse_deck SummarySchema_parse_def Let_def)
  qed
qed


section \<open>The target slide count\<close>

text \<open>
  C8. \<open>determineSlideCount\<close> returns the count that the thresholds of the specification
  give for the character count and the number of unique sections of the text, raised to 6
  for five or more sections and clamped to the range from 2 to 8.
\<close>

theorem C8_slide_count_thresholds:
  "slideCount (determineSlideCount text) = claimed_slide_count (length text) (countSections text)
   \<and> charCount (determineSlideCount text) = length text
   \<and> uniqueSections (determineSlideCount text) = countSections text
   \<and> 2 \<le> slideCount (determineSlideCount text)
   \<and> slideCount (determineSlideCount text) \<le> 8"
  by (simp add: determineSlideCount_def claimed_slide_count_def Let_def)

text \<open>The scenario of the specification: 3000 characters and 2 sections give 4 slides.\<close>

lemma claimed_slide_count_scenario: "claimed_slide_count 3000 2 = 4"
  by (simp add: claimed_slide_count_def)

section \<open>The Quality Gate\<close>

lemma foldl_add_length:
  "foldl (\<lambda>sum t. sum + length t) n ts = n + sum_list (map length ts)"
  by (induction ts arbitrary: n) simp_all

text \<open>
  C7 (as amended). \<open>slideHasMeaningfulContent\<close> holds exactly when the paragraph is not a
  placeholder and has 80 characters or more, or at least two non-placeholder bullets have
  12 characters or more each and all the non-placeholder bullets total 50 characters or
  more, or the paragraph is not a placeholder, has 40 characters or more, and there is a
  substantial bullet or the bullets total 30 characters or more. \<open>null\<close> is never
  meaningful.
\<close>

theorem C7_meaningful_content_amended:
  "slideHasMeaningfulContent E (Some s) = amended_meaningful E s
   \<and> slideHasMeaningfulContent E None = False"
  by (auto simp add: slideHasMeaningfulContent_def amended_meaningful_def gate_paragraph_def
      gate_bullets_def substantial_def foldl_add_length Let_def)

text \<open>
  C7 as stated fails: five non-placeholder bullets of ten characters total 50 characters,
  which the wording of the specification accepts, but none of them is substantial and the
  gate rejects the slide.
\<close>

theorem C7_short_bullets_counterexample:
  "claimed_meaningful example_platform short_bullets_slide
   \<and> \<not> slideHasMeaningfulContent example_platform (Some short_bullets_slide)"
  by code_simp

section \<open>The Response Salvage Parser\<close>

lemma tryExtractJson_order: "tryExtractJson E content = amended_extract E content"
  by (simp add: tryExtractJson_def amended_extract_def fence_attempt_def direct_attempt_def
      brace_attempt_def Let_def)

text \<open>
  C6 (as amended). The parser tries, in this order, the contents of a fenced code block,
  the whole trimmed payload, and the text from the first opening brace to the last
  closing brace; the first of them that parses to a truthy value is the result. When none
  does, the slide blocks read from the free text are the result, and when there are none
  the parser throws the error "Longcat response was not valid JSON". An empty payload is
  refused before any attempt.
\<close>

theorem C6_salvage_order_amended:
  "tryExtractJson E content
     = first_success [fence_attempt E content, direct_attempt E content, brace_attempt E content]
   \<and> parseStructuredResponse E (JStr content)
     = (if content = [] then Inl (new_Error (lit ''Longcat returned an empty response'') None)
        else case first_success [fence_attempt E content, direct_attempt E content,
                                 brace_attempt E content] of
               Some candidate \<Rightarrow> Inr candidate
             | None \<Rightarrow>
                 (case parseSlidesFromText E content of
                    Some slideFallback \<Rightarrow> Inr slideFallback
                  | None \<Rightarrow> Inl (new_Error (lit ''Longcat response was not valid JSON'') None)))"
  using tryExtractJson_order [of E content]
  by (simp add: parseStructuredResponse_def amended_extract_def truthy_def)

text \<open>
  C6 as stated fails: the payload \<open>{"note":"```7```"}\<close> parses directly to an object, so
  the order of the specification yields that object, but the code first finds the fenced
  block inside the string and returns the number 7.
\<close>

theorem C6_fence_before_direct_counterexample:
  "claimed_extract fenced_platform fenced_payload = Some fenced_payload_value
   \<and> tryExtractJson fenced_platform fenced_payload = Some (JNum (Fin 7))
   \<and> parseStructuredResponse fenced_platform (JStr fenced_payload) = Inr (JNum (Fin 7))"
  by code_simp

section \<open>Per-slide substitution in the orchestrator\<close>

lemma pickFallbackSlide_fallback_deck:
  "pickFallbackSlide (Normalized (fallback_deck E srcText st)) idx =
     Some (if idx < length (slides (fallback_deck E srcText st))
           then slides (fallback_deck E srcText st) ! idx
           else last (slides (fallback_deck E srcText st)))"
  using length_renormalized_slides [of E "slides (heuristic_summary E srcText st)"]
  by (auto simp add: pickFallbackSlide_def fallback_deck_def renormalized_deck_def Let_def)

text \<open>
  C10 (as amended). The fallback data is the normalised heuristic summary of the source
  text, \<open>fallback_deck\<close>; it always has at least two slides. For a slide that fails the
  Quality Gate, the candidate is the fallback slide at the same index or, when the index
  is beyond the fallback deck, the last fallback slide. The slide is replaced by the
  candidate, and the counter \<open>fallbackReplacements\<close> is incremented, exactly when the
  candidate passes the gate; otherwise the original slide (or the empty default slide
  standing for \<open>null\<close>) is kept and normalised, and the counter, from which the warning
  is built, stays as it is.
\<close>

theorem C10_gate_substitution_amended:
  "gate_slide E srcText st gs idx sl =
     Inr (if slideHasMeaningfulContent E sl
          then gs\<lparr>produced := produced gs @ [renormalized E idx (or_default idx sl)]\<rparr>
          else if slideHasMeaningfulContent E
                    (pickFallbackSlide (Normalized (fallback_deck E srcText st)) idx)
          then gs\<lparr>replacements := replacements gs + 1,
                  title := (if idx = 0 \<and> isDocTitleWeak E (title gs)
                               \<and> docTitle (fallback_deck E srcText st) \<noteq> []
                            then docTitle (fallback_deck E srcText st) else title gs),
                  produced := produced gs
                    @ [renormalized E idx
                         (or_default idx
                            (pickFallbackSlide (Normalized (fallback_deck E srcText st)) idx))]\<rparr>
          else gs\<lparr>produced := produced gs @ [renormalized E idx (or_default idx sl)]\<rparr>)
   \<and> pickFallbackSlide (Normalized (fallback_deck E srcText st)) idx =
       Some (if idx < length (slides (fallback_deck E srcText st))
             then slides (fallback_deck E srcText st) ! idx
             else last (slides (fallback_deck E srcText st)))
   \<and> ensureFallbackData E srcText st = Inr (Normalized (fallback_deck E srcText st))"
  using pickFallbackSlide_fallback_deck [of E srcText st idx]
  by (simp add: gate_slide_def ensureFallbackData_typed renormalize_slide_typed or_default_def
      default_slide_def fallback_title_def Let_def split: option.split)

text \<open>
  C10 as stated fails: for the text of two sections the target is three slides while the
  fallback deck has two, so there is no fallback chunk at index 2; still the missing third
  slide of a two-slide remote answer is replaced (by the last fallback slide) and the
  counter becomes 1.
\<close>

theorem C10_last_chunk_counterexample:
  "slideCount (determineSlideCount two_section_text) = 3
   \<and> length (slides (fallback_deck example_platform two_section_text
                        (determineSlideCount two_section_text))) = 2
   \<and> map_sum id replacements
        (gate_slide example_platform two_section_text (determineSlideCount two_section_text)
           initial_gate_state 2 None) = Inr 1
   \<and> map_sum id (fallbackReplacements \<circ> summaryStats)
        (assemble example_platform two_section_text (determineSlideCount two_section_text)
           (Normalized remote_two_slides)) = Inr (Some 1)"
  by code_simp

section \<open>The whole-pipeline fallback\<close>

lemma malformed_message_printable: "printable (joined_messages malformed_error)"
  by code_simp

lemma malformed_message_phrases:
  "\<not> str_includes (ascii_lower (joined_messages malformed_error)) (lit ''fetch failed'')
   \<and> \<not> str_includes (ascii_lower (joined_messages malformed_error)) (lit ''timeout'')
   \<and> \<not> str_includes (ascii_lower (joined_messages malformed_error)) (lit ''temporarily'')"
  by code_simp

lemma malformed_code: "code_or_errno (cause_or_self malformed_error) = None"
  by code_simp

lemma malformed_not_network:
  "sane_platform E \<Longrightarrow> \<not> isLikelyNetworkError E malformed_error"
  using malformed_message_printable malformed_message_phrases
  by (simp add: isLikelyNetworkError_def malformed_code sane_platform_def)

lemma short_text_nonempty: "trim short_text \<noteq> []"
  by code_simp

lemma fetch_failed_network:
  "isLikelyNetworkError example_platform (new_Error (lit ''fetch failed'') None)"
  by code_simp

text \<open>
  C3 (as amended). On a platform whose string builtins leave printable ASCII text as it is,
  and for a source text that is not blank: when the remote completion call or the parsing
  of its answer throws an error \<open>e\<close>, \<open>summarizeToSlides\<close> returns the heuristic fallback
  summary if \<open>e\<close> is network-classified by \<open>isLikelyNetworkError\<close>, and throws \<open>e\<close> itself
  otherwise; the fallback never throws. The malformed-response error is never
  network-classified, so a response that cannot be salvaged always propagates. Nothing is
  said of the credential-exhaustion error: it propagates unless its message, or the message
  or code of its cause, is network-classified.
\<close>

theorem C3_fallback_iff_network_amended:
  assumes "sane_platform E" and "trim srcText \<noteq> []" and "remote_attempt E completion = Inl e"
  shows "summarizeToSlides E completion srcText
           = (if isLikelyNetworkError E e
              then Inr (fallback_summary E srcText (determineSlideCount srcText))
              else Inl e)
         \<and> \<not> isLikelyNetworkError E malformed_error
         \<and> (e = malformed_error \<longrightarrow> summarizeToSlides E completion srcText = Inl e)"
proof (cases "isLikelyNetworkError E e")
  case True
  with assms malformed_not_network [OF assms(1)] show ?thesis
    by (auto simp add: summarizeToSlides_def tryHeuristicFallback_network)
next
  case False
  with assms malformed_not_network [OF assms(1)] show ?thesis
    by (simp add: summarizeToSlides_def tryHeuristicFallback_def)
qed

text \<open>
  C3 (as amended) on an input: the remote call throws the error \<open>fetch failed\<close>, and the
  summary of the text is the heuristic fallback.
\<close>

theorem C3_fallback_iff_network_witness:
  "summarizeToSlides example_platform (Inl (new_Error (lit ''fetch failed'') None)) short_text
     = Inr (fallback_summary example_platform short_text (determineSlideCount short_text))"
  using C3_fallback_iff_network_amended [OF sane_example_platform short_text_nonempty,
      of "Inl (new_Error (lit ''fetch failed'') None)" "new_Error (lit ''fetch failed'') None"]
    fetch_failed_network
  by (simp add: remote_attempt_def)

text \<open>
  C3 as stated fails: the only credential is rejected with status 401 and the detail
  \<open>API key temporarily suspended\<close>, so the client throws the credential-exhaustion error;
  its cause carries the word \<open>temporarily\<close>, and \<open>summarizeToSlides\<close> returns the heuristic
  fallback with its warning instead of the error.
\<close>

theorem C3_credential_exhaustion_counterexample:
  "jsonCompletion example_platform False suspended_401 (createKeyManager [lit ''key-1''])
     = Some (Inl suspended_error)
   \<and> map_sum id warnings (summarizeToSlides example_platform (Inl suspended_error) short_text)
       = Inr [lit ''Longcat request failed; generated heuristic summary instead.'']"
  by code_simp

section \<open>The output of the normaliser\<close>

text \<open>
  C1 fails on three inputs. A slide whose paragraph has no character that \<open>toAscii\<close> keeps
  (here a Japanese word) comes out with an empty paragraph, which \<open>SummarySchema\<close> rejects:
  \<open>normalizeParagraph\<close> returns the truncated text without a fallback, where
  \<open>normalizeHeadline\<close> has one. A slide without a paragraph whose only bullet is the text of
  the second filler comes out with that bullet twice, as the padding loop of
  \<open>normalizeBullets\<close> does not look for duplicates. A candidate with a number among its
  bullets makes \<open>cleanBulletLine\<close> throw a \<open>TypeError\<close>, so there is no output at all.
\<close>

theorem C1_normalizer_output_violates_schema:
  "normalizeStructuredResponse example_platform cjk_candidate = Inr (Normalized cjk_normalized)
   \<and> paragraph_text (hd (slides cjk_normalized)) = []
   \<and> \<not> SummarySchema_ok cjk_normalized
   \<and> normalizeStructuredResponse example_platform filler_candidate
       = Inr (Normalized filler_normalized)
   \<and> \<not> distinct (bullets (hd (slides filler_normalized)))
   \<and> normalizeStructuredResponse example_platform numeric_bullet_candidate
       = Inl (type_error ''line.replace is not a function'')"
  by code_simp

text \<open>
  The first of the three inputs of C1 once more: the candidate is an object with a
  \<open>slides\<close> array, so it passes the test at the head of \<open>normalizeStructuredResponse\<close>, and
  the paragraph of the first slide of the output is empty.
\<close>

theorem C1_normalizer_output_witness:
  "truthy cjk_candidate \<and> is_object cjk_candidate
   \<and> map_sum id (\<lambda>n. case n of Normalized d \<Rightarrow> map paragraph_text (slides d) | Unchanged v \<Rightarrow> [])
         (normalizeStructuredResponse example_platform cjk_candidate)
       = Inr [[], lit ''Summary forthcoming.'']"
  using C1_normalizer_output_violates_schema
  by (simp add: cjk_normalized_def cjk_candidate_def truthy_def is_object_def)

section \<open>A second pass of the normaliser\<close>

lemma foldl_set_insert_id: "distinct (acc @ xs) \<Longrightarrow> foldl set_insert acc xs = acc @ xs"
  by (induction xs arbitrary: acc) (auto simp: set_insert_def)

lemma unique_distinct_id: "distinct xs \<Longrightarrow> unique xs = xs"
  using foldl_set_insert_id [of "[]" xs] by (simp add: unique_def)

lemma cleanBulletLine_str_id:
  "clean b \<Longrightarrow> b \<noteq> [] \<Longrightarrow> \<not> is_marker (hd b) \<Longrightarrow> cleanBulletLine_str b = b"
  by (cases b) (simp_all add: cleanBulletLine_str_def clean_trim_id)

lemma length_foldl_add_highlight: "length c \<le> length (foldl add_highlight c hs)"
proof (induction hs arbitrary: c)
  case Nil
  show ?case by simp
next
  case (Cons h hs)
  have "length c \<le> length (add_highlight c h)" by (simp add: add_highlight_def)
  also have "\<dots> \<le> length (foldl add_highlight (add_highlight c h) hs)" by (rule Cons.IH)
  finally show ?case by simp
qed

lemma set_foldl_add_highlight_mono: "set c \<subseteq> set (foldl add_highlight c hs)"
proof (induction hs arbitrary: c)
  case Nil
  show ?case by simp
next
  case (Cons h hs)
  have "set c \<subseteq> set (add_highlight c h)" by (auto simp: add_highlight_def)
  also have "\<dots> \<subseteq> set (foldl add_highlight (add_highlight c h) hs)" by (rule Cons.IH)
  finally show ?case by simp
qed

lemma foldl_add_highlight_closed:
  "length (foldl add_highlight c hs) < 4 \<Longrightarrow> set hs \<subseteq> set (foldl add_highlight c hs)"
proof (induction hs arbitrary: c)
  case Nil
  show ?case by simp
next
  case (Cons h hs)
  let ?c = "add_highlight c h"
  from Cons.prems have l: "length (foldl add_highlight ?c hs) < 4" by simp
  then have "set hs \<subseteq> set (foldl add_highlight ?c hs)" by (rule Cons.IH)
  moreover have "length ?c < 4"
    using length_foldl_add_highlight [of ?c hs] l by simp
  then have "h \<in> set ?c" by (auto simp: add_highlight_def split: if_splits)
  then have "h \<in> set (foldl add_highlight ?c hs)"
    using set_foldl_add_highlight_mono [of ?c hs] by auto
  ultimately show ?case by simp
qed

lemma foldl_add_highlight_id: "set hs \<subseteq> set c \<Longrightarrow> foldl add_highlight c hs = c"
  by (induction hs arbitrary: c) (simp_all add: add_highlight_def)

lemma set_pad_fillers_mono: "set xs \<subseteq> set (pad_fillers xs)"
proof (induction xs rule: pad_fillers.induct)
  case (1 cleaned)
  show ?case
  proof (cases "length cleaned < 2")
    case True
    with 1 show ?thesis by (subst pad_fillers.simps) auto
  next
    case False
    then show ?thesis by (subst pad_fillers.simps) simp
  qed
qed

lemma length_pad_fillers_le: "length xs \<le> length (pad_fillers xs)"
proof (induction xs rule: pad_fillers.induct)
  case (1 cleaned)
  show ?case
  proof (cases "length cleaned < 2")
    case True
    with 1 show ?thesis by (subst pad_fillers.simps) auto
  next
    case False
    then show ?thesis by (subst pad_fillers.simps) simp
  qed
qed

lemma fillers_length: "f \<in> set BULLET_FILLER_STRINGS \<Longrightarrow> length f \<le> 110"
  by (auto simp: BULLET_FILLER_STRINGS_def lit_def)

lemma paragraphHighlights_length: "h \<in> set (paragraphHighlights E p) \<Longrightarrow> length h \<le> 110"
  by (auto simp: paragraphHighlights_def truncate_length dest!: in_set_takeD)

lemma bullets_core:
  fixes c hs
  defines "bs \<equiv> take 4 (pad_fillers (foldl add_highlight c hs))"
  shows "set bs \<subseteq> set c \<union> set hs \<union> set BULLET_FILLER_STRINGS"
    and "2 \<le> length bs" and "length bs \<le> 4"
    and "length bs < 4 \<Longrightarrow> set hs \<subseteq> set bs"
proof -
  let ?W = "foldl add_highlight c hs"
  have "set bs \<subseteq> set (pad_fillers ?W)" unfolding bs_def by (rule set_take_subset)
  also have "\<dots> \<subseteq> set ?W \<union> set BULLET_FILLER_STRINGS" by (rule pad_fillers_set)
  also have "\<dots> \<subseteq> set c \<union> set hs \<union> set BULLET_FILLER_STRINGS"
    using foldl_add_highlight_set [of c hs] by auto
  finally show "set bs \<subseteq> set c \<union> set hs \<union> set BULLET_FILLER_STRINGS" .
  show "2 \<le> length bs" unfolding bs_def using pad_fillers_length [of ?W] by simp
  show "length bs \<le> 4" unfolding bs_def by simp
  assume l: "length bs < 4"
  then have e: "bs = pad_fillers ?W" unfolding bs_def by (simp add: min_def split: if_splits)
  with l length_pad_fillers_le [of ?W] have "length ?W < 4" by simp
  then have "set hs \<subseteq> set ?W" by (rule foldl_add_highlight_closed)
  with set_pad_fillers_mono [of ?W] e show "set hs \<subseteq> set bs" by auto
qed

lemma placeholder_length: "length SUMMARY_PARAGRAPH_PLACEHOLDER \<le> 420"
  by (simp add: SUMMARY_PARAGRAPH_PLACEHOLDER_def lit_def)

lemma normalizeParagraph_shape:
  "normalizeParagraph E v bf = Inr p \<Longrightarrow> clean p \<and> length p \<le> 420"
  by (auto simp: normalizeParagraph_def Let_def truncate_clean truncate_length
      placeholder_clean placeholder_length split: if_splits jsval.splits sum.splits)

lemma normalizeBullets_shape:
  assumes "normalizeBullets E v p = Inr bs"
  shows "\<forall>b\<in>set bs. clean b \<and> length b \<le> 110" and "2 \<le> length bs" and "length bs \<le> 4"
    and "length bs < 4 \<Longrightarrow> set (paragraphHighlights E p) \<subseteq> set bs"
proof -
  from assms obtain ls where
    bs: "bs = take 4 (pad_fillers (foldl add_highlight
            (unique (map (\<lambda>v. truncateSummaryText E v 110) (filter (\<lambda>l. l \<noteq> []) ls)))
            (paragraphHighlights E p)))"
    by (auto simp: normalizeBullets_def Let_def split: sum.splits)
  let ?c = "unique (map (\<lambda>v. truncateSummaryText E v 110) (filter (\<lambda>l. l \<noteq> []) ls))"
  note core = bullets_core [of ?c "paragraphHighlights E p", folded bs]
  show "2 \<le> length bs" "length bs \<le> 4" by (rule core)+
  show "length bs < 4 \<Longrightarrow> set (paragraphHighlights E p) \<subseteq> set bs" by (rule core)
  show "\<forall>b\<in>set bs. clean b \<and> length b \<le> 110"
  proof
    fix b assume "b \<in> set bs"
    with core(1) have "b \<in> set ?c \<or> b \<in> set (paragraphHighlights E p)
                       \<or> b \<in> set BULLET_FILLER_STRINGS" by auto
    then show "clean b \<and> length b \<le> 110"
      by (auto simp: set_unique truncate_clean truncate_length paragraphHighlights_clean
          paragraphHighlights_length fillers_clean fillers_length)
  qed
qed

lemma section_label_shape:
  "list_all (\<lambda>idx. clean (section_label idx) \<and> section_label idx \<noteq> []
                    \<and> length (section_label idx) \<le> 64
                    \<and> \<not> is_marker (hd (section_label idx)) \<and> 42 \<notin> set (section_label idx))
     [0, 1, 2, 3, 4, 5, 6, 7]"
  by code_simp

lemma section_label_clean:
  assumes "idx < 8"
  shows "clean (section_label idx)" "section_label idx \<noteq> []" "length (section_label idx) \<le> 64"
proof -
  from assms have "idx \<in> set [0, 1, 2, 3, 4, 5, 6, 7]" by auto
  with section_label_shape show "clean (section_label idx)" "section_label idx \<noteq> []"
    "length (section_label idx) \<le> 64"
    unfolding list_all_iff by blast+
qed

lemma normalizeHeadline_shape:
  assumes "idx < 8"
  shows "clean (normalizeHeadline E h idx)" "normalizeHeadline E h idx \<noteq> []"
    "length (normalizeHeadline E h idx) \<le> 64"
  using section_label_clean [OF assms]
  by (auto simp: normalizeHeadline_def Let_def truncate_clean truncate_length)

lemma toLowerCase_chart_type:
  assumes "sane_platform E" and "t \<in> set [lit ''bar'', lit ''line'', lit ''pie'']"
  shows "toLowerCase E t = t"
proof -
  have "list_all (\<lambda>t. printable t \<and> ascii_lower t = t) [lit ''bar'', lit ''line'', lit ''pie'']"
    by code_simp
  with assms(2) have "printable t" "ascii_lower t = t" unfolding list_all_iff by blast+
  with assms(1) show ?thesis by (simp add: sane_platform_def)
qed

lemma chart_to_js_props:
  "get_prop (chart_to_js c) ''type'' = JStr (chart_type c)"
  "get_prop (chart_to_js c) ''categories'' = JArr (map JStr (categories c))"
  "get_prop (chart_to_js c) ''series'' =
     JArr (map (\<lambda>(label, vals). JObj [(lit ''label'', JStr label),
                                        (lit ''values'', JArr (map JNum vals))]) (series c))"
  "truthy (chart_to_js c)" "is_object (chart_to_js c)"
  by (simp_all add: chart_to_js_def get_prop_def truthy_def is_object_def lit_def)

lemma series_entry_props:
  "get_prop (JObj [(lit ''label'', JStr l), (lit ''values'', JArr vs)]) ''label'' = JStr l"
  "get_prop (JObj [(lit ''label'', JStr l), (lit ''values'', JArr vs)]) ''values'' = JArr vs"
  by (simp_all add: get_prop_def lit_def)

lemma Number_js_JNum: "map (Number_js E) (map JNum vals) = vals"
  by (induction vals) (simp_all add: Number_js_def)

lemma series_entry_roundtrip:
  assumes "trim l = l" "l \<noteq> []" "vals \<noteq> []" "list_all isFinite vals" "length vals \<le> 20"
  shows "series_entry E (JObj [(lit ''label'', JStr l), (lit ''values'', JArr (map JNum vals))])
           = Some (l, vals)"
proof -
  have "filter isFinite (map (Number_js E) (map JNum vals)) = vals"
    using assms(4) by (simp only: Number_js_JNum) (simp add: list_all_iff filter_id_conv)
  with assms show ?thesis
    by (simp only: series_entry_def series_entry_props Let_def)
       (simp add: truthy_def is_object_def)
qed

lemma series_entry_ok: "series_entry E v = Some e \<Longrightarrow> series_ok e"
proof -
  assume a: "series_entry E v = Some e"
  then obtain l vs where e: "e = (l, take 20 (filter isFinite vs))"
    and l: "trim l = l" "l \<noteq> []" and v: "filter isFinite vs \<noteq> []"
    by (auto simp: series_entry_def Let_def split: if_splits jsval.splits)
  have "list_all isFinite (take 20 (filter isFinite vs))"
    by (auto simp: list_all_iff dest: in_set_takeD)
  moreover from v have "take 20 (filter isFinite vs) \<noteq> []" by simp
  ultimately show ?thesis using e l by (simp add: series_ok_def)
qed

lemma map_filter_series_roundtrip:
  assumes "\<And>e. e \<in> set es \<Longrightarrow> series_ok e"
  shows "List.map_filter (series_entry E)
           (map (\<lambda>(label, vals). JObj [(lit ''label'', JStr label),
                                        (lit ''values'', JArr (map JNum vals))]) es) = es"
  using assms
proof (induction es)
  case Nil
  show ?case by simp
next
  case (Cons e es)
  obtain l vals where e: "e = (l, vals)" by (cases e)
  from Cons.prems [of e] e have "series_ok (l, vals)" by simp
  then have "series_entry E (JObj [(lit ''label'', JStr l), (lit ''values'', JArr (map JNum vals))])
               = Some (l, vals)"
    by (intro series_entry_roundtrip) (simp_all add: series_ok_def)
  with Cons e show ?case by simp
qed

lemma Number_js_JObj: "filter isFinite (map (Number_js E) (map (\<lambda>(label, vals). JObj (f label vals)) es)) = []"
  by (induction es) (auto simp: Number_js_def isFinite_def)


lemma series_label_trim:
  "trim (if collapseWhitespace (toAscii E v) \<noteq> [] then collapseWhitespace (toAscii E v)
         else lit ''Series 1'')
   = (if collapseWhitespace (toAscii E v) \<noteq> [] then collapseWhitespace (toAscii E v)
      else lit ''Series 1'')"
proof -
  have "clean (lit ''Series 1'')" by code_simp
  moreover have "clean (collapseWhitespace (toAscii E v))"
    by (simp add: clean_collapseWhitespace toAscii_printable)
  ultimately show ?thesis by (simp add: clean_trim_id)
qed

lemma set_map_filter: "set (List.map_filter f xs) = {y. \<exists>x\<in>set xs. f x = Some y}"
  by (induction xs) (auto split: option.splits)

lemma normalizeChart_shape:
  assumes "normalizeChart E v = Some c"
  shows "chart_shape c"
proof -
  let ?type = "case get_prop v ''type'' of JStr s \<Rightarrow> toLowerCase E s | _ \<Rightarrow> []"
  let ?cats = "case get_prop v ''categories'' of
                 JArr vs \<Rightarrow> take 20 (filter (\<lambda>v. trim v \<noteq> []) (map (String_js E) vs))
               | _ \<Rightarrow> []"
  let ?l = "collapseWhitespace (toAscii E (get_prop v ''label''))"
  let ?sers = "case get_prop v ''series'' of
                 JArr vs \<Rightarrow>
                   if length (filter isFinite (map (Number_js E) vs)) = length vs
                      \<and> filter isFinite (map (Number_js E) vs) \<noteq> []
                   then [(if ?l \<noteq> [] then ?l else lit ''Series 1'',
                          take 20 (filter isFinite (map (Number_js E) vs)))]
                   else take 6 (List.map_filter (series_entry E) vs)
               | _ \<Rightarrow> []"
  from assms have u: "(if \<not> truthy v \<or> \<not> is_object v then None
      else if ?type \<notin> set [lit ''bar'', lit ''line'', lit ''pie''] then None
      else if ?cats = [] \<or> ?sers = [] then None
      else Some \<lparr>chart_type = ?type, categories = ?cats, series = ?sers\<rparr>) = Some c"
    unfolding normalizeChart_def Let_def .
  then have c: "c = \<lparr>chart_type = ?type, categories = ?cats, series = ?sers\<rparr>"
    and t: "?type \<in> set [lit ''bar'', lit ''line'', lit ''pie'']"
    and ne: "?cats \<noteq> []" "?sers \<noteq> []"
    by (simp_all split: if_splits)
  have cats: "length ?cats \<le> 20" "list_all (\<lambda>x. trim x \<noteq> []) ?cats"
    by (auto simp: list_all_iff split: jsval.splits dest: in_set_takeD)
  have sers: "length ?sers \<le> 6"
    by (auto split: jsval.splits)
  have ok: "list_all series_ok ?sers"
  proof (cases "get_prop v ''series''")
    case (JArr vs)
    show ?thesis
    proof (cases "length (filter isFinite (map (Number_js E) vs)) = length vs
                    \<and> filter isFinite (map (Number_js E) vs) \<noteq> []")
      case True
      have "list_all isFinite (take 20 (filter isFinite (map (Number_js E) vs)))"
        by (auto simp: list_all_iff dest: in_set_takeD)
      with True JArr show ?thesis
        using series_label_trim [of E "get_prop v ''label''"]
        by (simp add: series_ok_def lit_def)
    next
      case False
      have "series_ok e" if "e \<in> set (take 6 (List.map_filter (series_entry E) vs))" for e
        using that by (auto simp: set_map_filter dest!: in_set_takeD intro: series_entry_ok)
      then have "list_all series_ok (take 6 (List.map_filter (series_entry E) vs))"
        by (simp add: list_all_iff)
      then show ?thesis by (simp only: JArr jsval.case if_not_P [OF False])
    qed
  qed simp_all
  from c t ne cats sers ok show ?thesis by (simp add: chart_shape_def)
qed

lemma normalizeChart_roundtrip:
  assumes "sane_platform E" and "chart_shape c"
  shows "normalizeChart E (chart_to_js c) = Some c"
proof -
  from assms(2) have t: "chart_type c \<in> set [lit ''bar'', lit ''line'', lit ''pie'']"
    by (simp add: chart_shape_def)
  then have ty: "toLowerCase E (chart_type c) = chart_type c"
    by (rule toLowerCase_chart_type [OF assms(1)])
  have cats: "take 20 (filter (\<lambda>v. trim v \<noteq> []) (map (String_js E) (map JStr (categories c))))
                = categories c"
    using assms(2) by (simp add: chart_shape_def list_all_iff filter_id_conv comp_def)
  let ?js = "map (\<lambda>(label, vals). JObj [(lit ''label'', JStr label),
                                         (lit ''values'', JArr (map JNum vals))]) (series c)"
  have num: "filter isFinite (map (Number_js E) ?js) = []"
    by (rule Number_js_JObj)
  have sers: "take 6 (List.map_filter (series_entry E) ?js) = series c"
    using assms(2) map_filter_series_roundtrip [of "series c" E]
    by (simp add: chart_shape_def list_all_iff)
  from assms(2) have ne: "categories c \<noteq> []" "series c \<noteq> []" by (simp_all add: chart_shape_def)
  show ?thesis
    unfolding normalizeChart_def chart_to_js_props Let_def
    using t ty cats num sers ne chart_to_js_props(4,5) [of c] by simp
qed

lemma normalize_candidate_shape:
  assumes "idx < 8" and "normalize_candidate E idx cand = Inr s"
  shows "slide_invariant E s"
proof -
  let ?safe = "if truthy cand \<and> is_object cand then cand else JObj []"
  let ?ht = "case get_prop ?safe ''headline'' of
               JStr s \<Rightarrow> (if trim s \<noteq> [] then trim s else section_label idx)
             | _ \<Rightarrow> section_label idx"
  from assms(2) have u: "(case normalizeParagraph E (get_prop ?safe ''paragraph'')
                (get_prop ?safe ''bullets'') of
           Inl e \<Rightarrow> Inl e
         | Inr para \<Rightarrow>
             (case normalizeBullets E (get_prop ?safe ''bullets'') para of
                  Inl e \<Rightarrow> Inl e
                | Inr bs \<Rightarrow>
                    Inr \<lparr>headline = normalizeHeadline E ?ht idx, paragraph_text = para, bullets = bs,
                         chart = normalizeChart E (get_prop ?safe ''chart'')\<rparr>)) = Inr s"
    unfolding normalize_candidate_def Let_def .
  then obtain para bs where
    p: "normalizeParagraph E (get_prop ?safe ''paragraph'') (get_prop ?safe ''bullets'') = Inr para"
    and b: "normalizeBullets E (get_prop ?safe ''bullets'') para = Inr bs"
    and s: "s = \<lparr>headline = normalizeHeadline E ?ht idx, paragraph_text = para, bullets = bs,
                  chart = normalizeChart E (get_prop ?safe ''chart'')\<rparr>"
    by (auto split: sum.splits)
  show ?thesis
    unfolding slide_invariant_def s
    using normalizeParagraph_shape [OF p] normalizeBullets_shape [OF b]
      normalizeHeadline_shape [OF assms(1), of E ?ht]
    by (auto simp: normalizeChart_shape split: option.splits)
qed

lemma placeholder_slide_shape:
  assumes "idx < 8"
  shows "slide_invariant E (renormalized E idx (default_slide idx))"
proof -
  have p: "normalizeParagraph E (JStr []) (JArr []) = Inr (typed_paragraph E [] [])"
    using normalizeParagraph_typed [of E "[]" "[]"] by simp
  have b: "normalizeBullets E (JArr []) para = Inr (typed_bullets E [] para)" for para
    using normalizeBullets_typed [of E "[]" para] by simp
  show ?thesis
    unfolding slide_invariant_def renormalized_def default_slide_def
    using normalizeParagraph_shape [OF p] normalizeBullets_shape [OF b]
      normalizeHeadline_shape [OF assms(1), of E "section_label idx"]
    by (auto simp: normalizeChart_JNull)
qed

lemma map_result_Inr:
  "map_result f xs = Inr ys \<Longrightarrow> list_all2 (\<lambda>x y. f x = Inr y) xs ys"
  by (induction xs arbitrary: ys) (auto split: sum.splits)

lemma mapped_shape:
  assumes "map_result (\<lambda>(idx, candidate). normalize_candidate E idx candidate)
             (enumerate 0 (take 8 cands)) = Inr mapped"
  shows "length mapped \<le> 8" and "\<And>s. s \<in> set mapped \<Longrightarrow> slide_invariant E s"
proof -
  note l = map_result_Inr [OF assms]
  then have len: "length mapped = length (take 8 cands)"
    by (auto dest: list_all2_lengthD)
  then show "length mapped \<le> 8" by simp
  fix s assume "s \<in> set mapped"
  then obtain i where i: "i < length mapped" "s = mapped ! i" by (auto simp: in_set_conv_nth)
  with l len have "(\<lambda>(idx, candidate). normalize_candidate E idx candidate)
                     (enumerate 0 (take 8 cands) ! i) = Inr s"
    by (auto dest: list_all2_nthD2)
  with i len have "normalize_candidate E i (take 8 cands ! i) = Inr s"
    by (simp add: nth_enumerate_eq)
  moreover from i len have "i < 8" by simp
  ultimately show "slide_invariant E s" by (rule normalize_candidate_shape [rotated])
qed

lemma first_title_shape:
  "clean (first_title E cs) \<and> length (first_title E cs) \<le> 120"
proof (induction cs)
  case Nil
  have "clean (lit ''Generated Summary'')" by code_simp
  then show ?case by (simp add: lit_def)
next
  case (Cons c cs)
  then show ?case by (simp add: Let_def truncate_clean truncate_length)
qed

lemma normalizeStructuredResponse_shape:
  assumes "normalizeStructuredResponse E data = Inr (Normalized d)"
  shows "2 \<le> length (slides d)" and "length (slides d) \<le> 8"
    and "\<And>s. s \<in> set (slides d) \<Longrightarrow> slide_invariant E s"
    and "clean (docTitle d)" and "length (docTitle d) \<le> 120"
proof -
  let ?f = "\<lambda>(idx, candidate). normalize_candidate E idx candidate"
  from assms have u: "(if \<not> truthy data \<or> \<not> is_object data then Inr (Unchanged data)
      else case map_result ?f (enumerate 0 (take 8 (extractSlideCandidates data))) of
             Inl e \<Rightarrow> Inl e
           | Inr mapped \<Rightarrow>
               (case pad_slides E mapped of
                  Inl e \<Rightarrow> Inl e
                | Inr normalizedSlides \<Rightarrow>
                    Inr (Normalized \<lparr>docTitle = deriveDocTitle E data normalizedSlides,
                                     slides = normalizedSlides\<rparr>))) = Inr (Normalized d)"
    unfolding normalizeStructuredResponse_def Let_def .
  then obtain mapped where
    m: "map_result ?f (enumerate 0 (take 8 (extractSlideCandidates data))) = Inr mapped"
    and d: "d = \<lparr>docTitle = deriveDocTitle E data
                     (mapped @ map (\<lambda>idx. renormalized E idx (default_slide idx)) [length mapped..<2]),
                  slides = mapped @ map (\<lambda>idx. renormalized E idx (default_slide idx))
                                       [length mapped..<2]\<rparr>"
    by (auto simp: pad_slides_typed split: if_splits sum.splits)
  note ms = mapped_shape [OF m]
  show "2 \<le> length (slides d)" unfolding d by (cases "2 \<le> length mapped") auto
  show "length (slides d) \<le> 8" unfolding d using ms(1) by (cases "2 \<le> length mapped") auto
  show "slide_invariant E s" if "s \<in> set (slides d)" for s
    using that ms(2) placeholder_slide_shape [of _ E] unfolding d by auto
  show "clean (docTitle d)" "length (docTitle d) \<le> 120"
    unfolding d by (simp_all add: deriveDocTitle_def first_title_shape)
qed


subsection \<open>The decks that a second pass leaves unchanged\<close>

lemma foldl_add_highlight_full: "4 \<le> length c \<Longrightarrow> foldl add_highlight c hs = c"
  by (induction hs) (simp_all add: add_highlight_def)

lemma clean_hd: "clean s \<Longrightarrow> s \<noteq> [] \<Longrightarrow> 32 < hd s \<and> hd s \<le> 126"
  by (cases s) (auto simp: clean_def)

lemma not_ws_printable: "32 < c \<Longrightarrow> c \<le> 126 \<Longrightarrow> \<not> is_ws c"
  using printable_lit_ws [of "[c]" c] by simp

lemma drop_emoji_prefix_id:
  assumes "sane_platform E" and "clean s" and "s \<noteq> []"
  shows "drop_emoji_prefix E s = s"
proof -
  from clean_hd [OF assms(2,3)] have c: "32 < hd s" "hd s \<le> 126" by simp_all
  then have "\<not> extendedPictographic E (hd s)" using assms(1) by (simp add: sane_platform_def)
  with c not_ws_printable [of "hd s"] have e: "\<not> emoji_class E (hd s)"
    by (simp add: emoji_class_def)
  from c have h: "\<not> is_high_surrogate (hd s)" by (simp add: is_high_surrogate_def)
  from assms(3) e h show ?thesis
    by (cases "(E, s)" rule: drop_emoji_prefix.cases) auto
qed

lemma normalizeHeadline_id:
  assumes "sane_platform E" and "clean h" and "h \<noteq> []" and "length h \<le> 64"
    and "\<not> is_marker (hd h)" and "42 \<notin> set h"
  shows "normalizeHeadline E h idx = h"
proof -
  have a: "cleanBulletLine_str h = h" using assms(2,3,5) by (rule cleanBulletLine_str_id)
  have b: "stripEmojiPrefix E h = h"
    using assms(1-3) by (simp add: stripEmojiPrefix_def drop_emoji_prefix_id clean_trim_id)
  have c: "filter (\<lambda>c. c \<noteq> 42) h = h" using assms(6) by (auto simp: filter_id_conv)
  have d: "toAscii_str E h = h" using assms(1,2) by (simp add: toAscii_str_id clean_printable)
  from assms(1-4) show ?thesis
    by (simp add: normalizeHeadline_def a b c d clean_trim_id clean_collapse_id truncate_id
        Let_def)
qed

lemma typed_paragraph_id:
  assumes "sane_platform E" and "clean p" and "p \<noteq> []" and "length p \<le> 420"
  shows "typed_paragraph E p bs = p"
  using assms by (simp add: typed_paragraph_def clean_ws_collapse_id truncate_id Let_def)

lemma typed_bullets_id:
  assumes "sane_platform E" and "\<And>b. b \<in> set bs \<Longrightarrow> clean b \<and> length b \<le> 110"
    and "\<And>b. b \<in> set bs \<Longrightarrow> b \<noteq> [] \<and> \<not> is_marker (hd b)"
    and "distinct bs" and "2 \<le> length bs" and "length bs \<le> 4"
    and "length bs < 4 \<Longrightarrow> set (paragraphHighlights E p) \<subseteq> set bs"
  shows "typed_bullets E bs p = bs"
proof -
  have a: "map cleanBulletLine_str bs = bs"
    using assms(2,3) by (intro map_idI) (simp add: cleanBulletLine_str_id)
  have b: "filter (\<lambda>l. l \<noteq> []) bs = bs" using assms(3) by (auto simp: filter_id_conv)
  have c: "map (\<lambda>v. truncateSummaryText E v 110) bs = bs"
    using assms(1,2) by (intro map_idI) (simp add: truncate_id)
  have d: "unique bs = bs" using assms(4) by (rule unique_distinct_id)
  have e: "foldl add_highlight bs (paragraphHighlights E p) = bs"
  proof (cases "length bs < 4")
    case True
    then show ?thesis using assms(7) by (intro foldl_add_highlight_id) simp
  next
    case False
    then show ?thesis by (intro foldl_add_highlight_full) simp
  qed
  from assms(5,6) show ?thesis
    by (simp add: typed_bullets_def a b c d e pad_fillers_id)
qed

lemma renormalized_id:
  assumes "sane_platform E" and "slide_invariant E s" and "settled s"
  shows "renormalized E idx (with_headline_text idx s) = s"
proof -
  from assms(2) have h: "clean (headline s)" "headline s \<noteq> []" "length (headline s) \<le> 64"
    and p: "clean (paragraph_text s)" "length (paragraph_text s) \<le> 420"
    and b: "\<And>b. b \<in> set (bullets s) \<Longrightarrow> clean b \<and> length b \<le> 110"
      "2 \<le> length (bullets s)" "length (bullets s) \<le> 4"
      "length (bullets s) < 4
         \<Longrightarrow> set (paragraphHighlights E (paragraph_text s)) \<subseteq> set (bullets s)"
    and c: "case chart s of None \<Rightarrow> True | Some c \<Rightarrow> chart_shape c"
    by (simp_all add: slide_invariant_def)
  from assms(3) have s: "paragraph_text s \<noteq> []" "distinct (bullets s)"
    "\<And>b. b \<in> set (bullets s) \<Longrightarrow> b \<noteq> [] \<and> \<not> is_marker (hd b)"
    "\<not> is_marker (hd (headline s))" "42 \<notin> set (headline s)"
    by (simp_all add: settled_def list_all_iff)
  have w: "with_headline_text idx s = s"
    using h by (simp add: with_headline_text_def clean_trim_id)
  have hl: "normalizeHeadline E (headline s) idx = headline s"
    using assms(1) h s(4,5) by (rule normalizeHeadline_id)
  have pa: "typed_paragraph E (paragraph_text s) (bullets s) = paragraph_text s"
    using assms(1) p(1) s(1) p(2) by (rule typed_paragraph_id)
  have bu: "typed_bullets E (bullets s) (paragraph_text s) = bullets s"
    using assms(1) b(1) s(3,2) b(2,3,4) by (rule typed_bullets_id)
  have ch: "normalizeChart E (case chart s of None \<Rightarrow> JNull | Some c \<Rightarrow> chart_to_js c) = chart s"
    using c assms(1) by (auto simp: normalizeChart_JNull normalizeChart_roundtrip split: option.splits)
  show ?thesis by (simp add: w renormalized_def hl pa bu ch)
qed

lemma map_enumerate_id:
  "(\<And>i x. x \<in> set xs \<Longrightarrow> f i x = x) \<Longrightarrow> map (\<lambda>(i, x). f i x) (enumerate n xs) = xs"
  by (induction xs arbitrary: n) simp_all

lemma renormalized_deck_id:
  assumes "sane_platform E" and "2 \<le> length (slides d)" and "length (slides d) \<le> 8"
    and "\<And>s. s \<in> set (slides d) \<Longrightarrow> slide_invariant E s \<and> settled s"
    and "clean (docTitle d)" and "docTitle d \<noteq> []" and "length (docTitle d) \<le> 120"
  shows "renormalized_deck E d = d"
proof -
  have m: "map (\<lambda>(idx, s). renormalized E idx (with_headline_text idx s)) (enumerate 0 (slides d))
             = slides d"
    using assms(1,4) by (intro map_enumerate_id) (simp add: renormalized_id)
  have ss: "renormalized_slides E (slides d) = slides d"
    using assms(2,3) by (simp add: renormalized_slides_def m Let_def)
  have t: "collapseWhitespace (toAscii E (JStr (docTitle d))) = docTitle d"
    using assms(1,5) by (simp add: toAscii_def toAscii_str_id clean_printable clean_collapse_id)
  have "deriveDocTitle E (deck_to_js d) (slides d) = docTitle d"
    using assms(1,5,6,7)
    by (simp add: deriveDocTitle_def deck_to_js_props t truncate_id Let_def)
  then show ?thesis by (simp add: renormalized_deck_def ss)
qed

lemma docTitle_nonempty:
  assumes "sane_platform E" and "normalizeStructuredResponse E data = Inr (Normalized d)"
  shows "docTitle d \<noteq> []"
proof -
  from assms(2) obtain ss where "docTitle d = deriveDocTitle E data ss"
    by (auto simp: normalizeStructuredResponse_def Let_def split: if_splits sum.splits)
  then show ?thesis using first_title_nonempty [OF assms(1)] by (simp add: deriveDocTitle_def)
qed

text \<open>
  C9 (as amended). On a platform whose string builtins leave printable ASCII text as it is:
  when \<open>normalizeStructuredResponse\<close> turns an input into a deck in which every slide has a
  paragraph that is not empty, distinct bullets none of which is empty or starts with a
  list marker, and a headline that does not start with a list marker and holds no
  asterisk, then a second pass over that deck returns the very same deck: headlines,
  paragraphs, bullets, charts and \<open>docTitle\<close> are unchanged.
\<close>

theorem C9_second_pass_amended:
  assumes "sane_platform E" and "normalizeStructuredResponse E data = Inr (Normalized d)"
    and "list_all settled (slides d)"
  shows "normalizeStructuredResponse E (deck_to_js d) = Inr (Normalized d)"
proof -
  note sh = normalizeStructuredResponse_shape [OF assms(2)]
  have "renormalized_deck E d = d"
    using assms(1) sh(1,2) _ sh(4) docTitle_nonempty [OF assms(1,2)] sh(5)
  proof (rule renormalized_deck_id)
    fix s assume "s \<in> set (slides d)"
    with sh(3) assms(3) show "slide_invariant E s \<and> settled s" by (simp add: list_all_iff)
  qed
  then show ?thesis by (simp add: normalizeStructuredResponse_deck)
qed

lemma dashed_second_pass:
  "normalizeStructuredResponse example_platform (deck_to_js dashed_once)
     = Inr (Normalized dashed_twice)"
  by code_simp

lemma dashed_twice_settled: "list_all settled (slides dashed_twice)"
  by code_simp

text \<open>
  C9 (as amended) on an input: the deck \<open>dashed_twice\<close> is what the normaliser makes of
  \<open>dashed_once\<close>, its slides are settled, and one more pass leaves it as it is.
\<close>

theorem C9_second_pass_witness:
  "normalizeStructuredResponse example_platform (deck_to_js dashed_twice)
     = Inr (Normalized dashed_twice)"
  using C9_second_pass_amended [OF sane_example_platform dashed_second_pass dashed_twice_settled]
  by simp

text \<open>
  C9 as stated fails: \<open>cleanBulletLine\<close> removes one run of list markers per pass, so a
  headline \<open>- - Plan\<close> becomes \<open>- Plan\<close> in the first pass and \<open>Plan\<close> in the second, and
  the bullet \<open>* - first point\<close> loses its second marker in the second pass as well.
\<close>

theorem C9_list_marker_counterexample:
  "normalizeStructuredResponse example_platform dashed_candidate = Inr (Normalized dashed_once)
   \<and> normalizeStructuredResponse example_platform (deck_to_js dashed_once)
       = Inr (Normalized dashed_twice)
   \<and> dashed_twice \<noteq> dashed_once
   \<and> headline (hd (slides dashed_once)) = lit ''- Plan''
   \<and> headline (hd (slides dashed_twice)) = lit ''Plan''"
  by code_simp


end
